theory Spec2Isabelle
  imports Main "HOL-Library.Word" "HOL-Library.Sublist"
begin

unbundle bit_operations_syntax

section \<open>The read pipeline: \<open>osmium::io::detail::ReadThread\<close>\<close>

text \<open>
  The producer \<open>ReadThread::operator()\<close> runs in a thread of its own. It shares exactly two
  objects with the consumer: the queue \<open>m_queue\<close> and the flag \<open>m_done\<close>. The model is a
  step function on the shared state, driven by a schedule of ticks: at each tick either the
  producer performs its next action, or the consumer pops a chunk, or the consumer sets the
  cancellation flag. Every interleaving of the two threads is a schedule.
\<close>

type_synonym chunk = string

text \<open>
  Modelled from the spec: the external \<open>Decompressor\<close> (\<open>osmium/io/compression.hpp\<close> is not
  part of the sources). \<open>read()\<close> returns the next chunk, an empty chunk at end-of-stream,
  or fails; \<open>read_at d n\<close> is what the \<open>n\<close>-th call does. \<open>close()\<close> is called inside the
  producer's \<open>try\<close> block, so a failure of \<open>close()\<close> is a behaviour of the collaborator too.
\<close>

datatype read_result = Data chunk | ReadThrows

record Decompressor =
  read_at :: "nat \<Rightarrow> read_result"
  close_throws :: bool

text \<open>A decompressor that yields the listed results and then reports end-of-stream.\<close>

definition scripted :: "read_result list \<Rightarrow> nat \<Rightarrow> read_result" where
  "scripted rs n = (if n < length rs then rs ! n else Data [])"

text \<open>The control points of \<open>operator()\<close>, one per shared or external action.\<close>

datatype label =
    LoopTest          \<comment> \<open>\<open>while (!m_done)\<close>\<close>
  | ReadCall          \<comment> \<open>\<open>std::string data {m_decompressor->read()};\<close>\<close>
  | PushData chunk    \<comment> \<open>\<open>if (data.empty()) { push; break; } push\<close>\<close>
  | WaitSize          \<comment> \<open>\<open>while (m_queue.size() > 10 ...\<close>\<close>
  | WaitDone          \<comment> \<open>\<open>... && !m_done) sleep_for(10ms)\<close>\<close>
  | CloseCall         \<comment> \<open>\<open>m_decompressor->close();\<close>\<close>
  | Catch             \<comment> \<open>\<open>catch (...) { m_queue.push(std::string()); throw; }\<close>\<close>
  | Returned          \<comment> \<open>\<open>return true;\<close>\<close>
  | Rethrown          \<comment> \<open>the exception has left \<open>operator()\<close>\<close>

text \<open>How the \<open>while\<close> loop was left (a history variable, not a variable of the code).\<close>

datatype loop_exit = EndOfStream | Cancelled | ReadFailed

record pipeline =
  pc :: label
  m_queue :: "chunk list"        \<comment> \<open>front of the queue at the head\<close>
  m_done :: bool
  reads :: nat                   \<comment> \<open>history: calls of \<open>read()\<close> so far\<close>
  closes :: nat                  \<comment> \<open>history: calls of \<open>close()\<close> so far\<close>
  pushed :: "chunk list"         \<comment> \<open>history: every chunk pushed, in order\<close>
  left_by :: "loop_exit option"  \<comment> \<open>history: why the loop was left\<close>
  popped :: "chunk list"         \<comment> \<open>what the consumer has observed, in order\<close>

text \<open>
  Modelled from the spec: \<open>osmium::thread::Queue\<close> (\<open>osmium/thread/queue.hpp\<close> is not part
  of the sources), a thread-safe FIFO: \<open>push\<close> appends at the back and does not fail.
\<close>

definition push :: "chunk \<Rightarrow> pipeline \<Rightarrow> pipeline" where
  "push x s = s\<lparr>m_queue := m_queue s @ [x], pushed := pushed s @ [x]\<rparr>"

definition producer_step :: "Decompressor \<Rightarrow> pipeline \<Rightarrow> pipeline" where
  "producer_step d s =
    (case pc s of
       LoopTest \<Rightarrow>
         if m_done s then s\<lparr>pc := CloseCall, left_by := Some Cancelled\<rparr>
         else s\<lparr>pc := ReadCall\<rparr>
     | ReadCall \<Rightarrow>
         (case read_at d (reads s) of
            Data x \<Rightarrow> s\<lparr>pc := PushData x, reads := Suc (reads s)\<rparr>
          | ReadThrows \<Rightarrow> s\<lparr>pc := Catch, reads := Suc (reads s), left_by := Some ReadFailed\<rparr>)
     | PushData x \<Rightarrow>
         if x = [] then (push x s)\<lparr>pc := CloseCall, left_by := Some EndOfStream\<rparr>
         else (push x s)\<lparr>pc := WaitSize\<rparr>
     | WaitSize \<Rightarrow>
         if length (m_queue s) > 10 then s\<lparr>pc := WaitDone\<rparr> else s\<lparr>pc := LoopTest\<rparr>
     | WaitDone \<Rightarrow>
         if \<not> m_done s then s\<lparr>pc := WaitSize\<rparr> else s\<lparr>pc := LoopTest\<rparr>
     | CloseCall \<Rightarrow>
         if close_throws d then s\<lparr>pc := Catch, closes := Suc (closes s)\<rparr>
         else s\<lparr>pc := Returned, closes := Suc (closes s)\<rparr>
     | Catch \<Rightarrow> (push [] s)\<lparr>pc := Rethrown\<rparr>
     | Returned \<Rightarrow> s
     | Rethrown \<Rightarrow> s)"

text \<open>
  Modelled from the spec: the consumer. It pops chunks in order, blocks while the queue is
  empty and never pops again once it has seen the sentinel (an empty chunk).
\<close>

definition consumer_pop :: "pipeline \<Rightarrow> pipeline" where
  "consumer_pop s =
    (case m_queue s of
       [] \<Rightarrow> s
     | x # q \<Rightarrow> if [] \<in> set (popped s) then s else s\<lparr>m_queue := q, popped := popped s @ [x]\<rparr>)"

datatype tick = Producer | ConsumerPop | SetDone

definition step :: "Decompressor \<Rightarrow> tick \<Rightarrow> pipeline \<Rightarrow> pipeline" where
  "step d t s =
    (case t of
       Producer \<Rightarrow> producer_step d s
     | ConsumerPop \<Rightarrow> consumer_pop s
     | SetDone \<Rightarrow> s\<lparr>m_done := True\<rparr>)"

fun run :: "Decompressor \<Rightarrow> tick list \<Rightarrow> pipeline \<Rightarrow> pipeline" where
  "run d [] s = s"
| "run d (t # ts) s = run d ts (step d t s)"

definition start :: pipeline where
  "start = \<lparr>pc = LoopTest, m_queue = [], m_done = False, reads = 0, closes = 0,
            pushed = [], left_by = None, popped = []\<rparr>"

definition ended :: "pipeline \<Rightarrow> bool" where
  "ended s = (pc s = Returned \<or> pc s = Rethrown)"

definition sentinels :: "pipeline \<Rightarrow> nat" where
  "sentinels s = count_list (pushed s) []"

subsection \<open>Predicates used to state and prove the pipeline's properties\<close>

text \<open>The sentinel is the last chunk pushed.\<close>

definition sentinel_last :: "pipeline \<Rightarrow> bool" where
  "sentinel_last s = (pushed s \<noteq> [] \<and> last (pushed s) = [])"

definition in_the_loop :: "pipeline \<Rightarrow> bool" where
  "in_the_loop s = (left_by s = None \<and> closes s = 0 \<and> sentinels s = 0)"

definition left_at_eos :: "pipeline \<Rightarrow> bool" where
  "left_at_eos s = (left_by s = Some EndOfStream \<and> sentinels s = 1 \<and> sentinel_last s)"

definition left_cancelled :: "pipeline \<Rightarrow> bool" where
  "left_cancelled s = (left_by s = Some Cancelled \<and> sentinels s = 0 \<and> m_done s)"

text \<open>What holds at each control point of the producer, in every interleaving.\<close>

definition producer_inv :: "Decompressor \<Rightarrow> pipeline \<Rightarrow> bool" where
  "producer_inv d s =
    (case pc s of
       LoopTest \<Rightarrow> in_the_loop s
     | ReadCall \<Rightarrow> in_the_loop s
     | PushData x \<Rightarrow> in_the_loop s
     | WaitSize \<Rightarrow> in_the_loop s
     | WaitDone \<Rightarrow> in_the_loop s
     | CloseCall \<Rightarrow> closes s = 0 \<and> (left_at_eos s \<or> left_cancelled s)
     | Catch \<Rightarrow>
         left_by s = Some ReadFailed \<and> closes s = 0 \<and> sentinels s = 0 \<or>
         close_throws d \<and> closes s = 1 \<and> (left_at_eos s \<or> left_cancelled s)
     | Returned \<Rightarrow> \<not> close_throws d \<and> closes s = 1 \<and> (left_at_eos s \<or> left_cancelled s)
     | Rethrown \<Rightarrow>
         left_by s = Some ReadFailed \<and> closes s = 0 \<and> sentinels s = 1 \<and> sentinel_last s \<or>
         close_throws d \<and> closes s = 1 \<and>
           (left_by s = Some EndOfStream \<and> sentinels s = 2 \<or>
            left_by s = Some Cancelled \<and> m_done s \<and> sentinels s = 1))"

text \<open>
  The decompressor yields the chunks \<open>cs\<close>, none of them empty, and then an empty chunk.
\<close>

definition yields :: "Decompressor \<Rightarrow> chunk list \<Rightarrow> bool" where
  "yields d cs =
    ((\<forall>i < length cs. read_at d i = Data (cs ! i)) \<and> read_at d (length cs) = Data [] \<and>
     [] \<notin> set cs)"

text \<open>
  The queue is first-in first-out: what was popped, followed by what is pending, is what was
  pushed; and the consumer stops at the first sentinel.
\<close>

definition fifo_inv :: "pipeline \<Rightarrow> bool" where
  "fifo_inv s = (popped s @ m_queue s = pushed s \<and> [] \<notin> set (butlast (popped s)))"

definition in_loop :: "chunk list \<Rightarrow> pipeline \<Rightarrow> bool" where
  "in_loop cs s = (left_by s = None \<and> reads s \<le> length cs \<and> pushed s = take (reads s) cs)"

definition after_loop :: "chunk list \<Rightarrow> pipeline \<Rightarrow> bool" where
  "after_loop cs s =
    (left_by s = Some EndOfStream \<and> reads s = Suc (length cs) \<and> pushed s = cs @ [[]] \<or>
     left_by s = Some Cancelled \<and> m_done s \<and> reads s \<le> length cs \<and>
       pushed s = take (reads s) cs)"

text \<open>The pushes follow the decompressor's chunks \<open>cs\<close>, at each control point.\<close>

definition follows :: "chunk list \<Rightarrow> pipeline \<Rightarrow> bool" where
  "follows cs s =
    (case pc s of
       LoopTest \<Rightarrow> in_loop cs s
     | ReadCall \<Rightarrow> in_loop cs s
     | PushData x \<Rightarrow>
         left_by s = None \<and> 0 < reads s \<and> reads s \<le> Suc (length cs) \<and>
         x = (cs @ [[]]) ! (reads s - 1) \<and> pushed s = take (reads s - 1) cs
     | WaitSize \<Rightarrow> in_loop cs s
     | WaitDone \<Rightarrow> in_loop cs s
     | CloseCall \<Rightarrow> after_loop cs s
     | Catch \<Rightarrow> after_loop cs s
     | Returned \<Rightarrow> after_loop cs s
     | Rethrown \<Rightarrow>
         left_by s = Some EndOfStream \<and> reads s = Suc (length cs) \<and>
           pushed s = cs @ [[], []] \<or>
         left_by s = Some Cancelled \<and> m_done s \<and> reads s \<le> length cs \<and>
           pushed s = take (reads s) cs @ [[]])"

text \<open>
  A schedule in which the consumer keeps up with the producer: per chunk, the producer tests
  the flag, reads and pushes, the consumer pops, and the producer finds the queue short.
  At the end the producer reads the empty chunk, pushes it and closes; the consumer pops it.
\<close>

definition round :: "tick list" where
  "round = [Producer, Producer, Producer, ConsumerPop, Producer]"

definition drain_schedule :: "nat \<Rightarrow> tick list" where
  "drain_schedule n =
    concat (replicate n round) @ [Producer, Producer, Producer, Producer, ConsumerPop]"

definition between :: "chunk list \<Rightarrow> nat \<Rightarrow> pipeline" where
  "between cs k = start\<lparr>reads := k, pushed := take k cs, popped := take k cs\<rparr>"

text \<open>
  How far an uncancelled run is from its end: the chunks not yet read, the producer's way to
  its next read, and the chunks waiting in the queue.
\<close>

fun rank :: "label \<Rightarrow> nat" where
  "rank (PushData x) = 6"
| "rank WaitDone = 5"
| "rank WaitSize = 4"
| "rank LoopTest = 3"
| "rank ReadCall = 2"
| "rank CloseCall = 0"
| "rank Catch = 0"
| "rank Returned = 0"
| "rank Rethrown = 0"

definition effort :: "chunk list \<Rightarrow> pipeline \<Rightarrow> nat" where
  "effort cs s = 20 * (Suc (length cs) - reads s) + 2 * rank (pc s) + length (m_queue s)"

section \<open>Memory mappings: \<open>osmium::util::MemoryMapping\<close>\<close>

text \<open>
  \<open>memory_mapping.hpp\<close> holds two implementations of the class, chosen by the preprocessor:
  the Unix one (\<open>#ifndef _WIN32\<close>), which takes the \<open>mremap\<close> branch of \<open>resize\<close> only under
  \<open>__linux__\<close>, and the Windows one. The platform is a parameter of the model.
\<close>

datatype platform =
    Linux        \<comment> \<open>\<open>_WIN32\<close> not defined, \<open>__linux__\<close> defined\<close>
  | OtherUnix    \<comment> \<open>neither defined\<close>
  | Windows      \<comment> \<open>\<open>_WIN32\<close> defined\<close>

text \<open>
  \<open>std::size_t\<close>, \<open>off_t\<close>, pointers and handles are 64 bits wide; \<open>+\<close> and \<open>*\<close> wrap around,
  \<open><\<close>, \<open>div\<close> and \<open>mod\<close> are unsigned, as for \<open>std::size_t\<close>. A file descriptor is only
  compared with \<open>-1\<close>.
\<close>

type_synonym size_t = "64 word"
type_synonym off_t = "64 word"
type_synonym addr = "64 word"
type_synonym handle = "64 word"
type_synonym dword = "32 word"

datatype mapping_mode = readonly | write_private | write_shared

record MemoryMapping =
  m_size :: size_t
  m_offset :: off_t
  m_fd :: int
  m_mapping_mode :: mapping_mode
  m_handle :: handle              \<comment> \<open>\<open>#ifdef _WIN32\<close> only; the Unix code never touches it\<close>
  m_addr :: addr

text \<open>
  Modelled from the spec: the invalid-address marker \<open>MAP_FAILED\<close> of \<open><sys/mman.h>\<close>, which
  is not part of the sources; POSIX systems define it as \<open>(void*)-1\<close>.
\<close>

definition MAP_FAILED :: addr where
  "MAP_FAILED = - 1"

definition nullptr :: "64 word" where
  "nullptr = 0"

definition INVALID_HANDLE_VALUE :: handle where
  "INVALID_HANDLE_VALUE = - 1"

subsection \<open>The operating system\<close>

text \<open>
  The flag arguments are kept symbolic: \<open>PROT_READ_WRITE\<close> is \<open>PROT_READ | PROT_WRITE\<close> and
  \<open>MAP_PRIVATE_ANONYMOUS\<close> is \<open>MAP_PRIVATE | MAP_ANONYMOUS\<close>.
\<close>

datatype prot = PROT_READ | PROT_READ_WRITE
datatype map_flags = MAP_PRIVATE_ANONYMOUS | MAP_SHARED | MAP_PRIVATE
datatype page_protection = PAGE_READONLY | PAGE_WRITECOPY | PAGE_READWRITE
datatype view_access = FILE_MAP_READ | FILE_MAP_COPY | FILE_MAP_WRITE

datatype os_call =
    Mmap size_t prot map_flags int off_t      \<comment> \<open>\<open>::mmap(nullptr, length, prot, flags, fd, offset)\<close>\<close>
  | Munmap addr size_t                         \<comment> \<open>\<open>::munmap(addr, length)\<close>\<close>
  | Mremap addr size_t size_t                  \<comment> \<open>\<open>::mremap(addr, old, new, MREMAP_MAYMOVE)\<close>\<close>
  | FileSize int                               \<comment> \<open>\<open>osmium::file_size(fd)\<close>\<close>
  | ResizeFile int size_t                      \<comment> \<open>\<open>osmium::resize_file(fd, new_size)\<close>\<close>
  | SetModeBinary int                          \<comment> \<open>\<open>_setmode(fd, _O_BINARY)\<close>\<close>
  | GetOsfHandle int                           \<comment> \<open>\<open>_get_osfhandle(fd)\<close>\<close>
  | CreateFileMapping handle page_protection dword dword
  | MapViewOfFile handle view_access dword dword size_t
  | UnmapViewOfFile addr
  | CloseHandle handle

text \<open>
  The system the code runs on. The operating system is an oracle: \<open>answer\<close> is the value a
  call returns and \<open>errno_after\<close> the error code (\<open>errno\<close>, \<open>GetLastError()\<close>) it leaves, both
  depending on the calls made before. The state of the world is the list of calls made so
  far, in order.

  Modelled from the spec: \<open>osmium::get_pagesize\<close>, \<open>osmium::file_size\<close> and
  \<open>osmium::resize_file\<close> (\<open>osmium/util/file.hpp\<close> is not part of the sources).
  \<open>pagesize\<close> is what \<open>get_pagesize()\<close> returns; \<open>file_size\<close> and \<open>resize_file\<close> fail with
  \<open>std::system_error\<close> exactly when the error code they leave is not 0.
\<close>

record system =
  platform :: platform
  ndebug :: bool                  \<comment> \<open>\<open>NDEBUG\<close> defined: \<open>assert\<close> expands to nothing\<close>
  pagesize :: size_t
  answer :: "os_call list \<Rightarrow> os_call \<Rightarrow> 64 word"
  errno_after :: "os_call list \<Rightarrow> os_call \<Rightarrow> int"

datatype failure =
    system_error int string       \<comment> \<open>\<open>std::system_error{code, std::system_category(), what}\<close>\<close>
  | assertion_failed string       \<comment> \<open>a failed \<open>assert\<close>: the process is aborted\<close>
  | terminate                     \<comment> \<open>an exception leaves a \<open>noexcept\<close> function\<close>

subsection \<open>Private members\<close>

definition is_valid :: "system \<Rightarrow> MemoryMapping \<Rightarrow> bool" where
  "is_valid sys m =
    (if platform sys = Windows then m_addr m \<noteq> nullptr else m_addr m \<noteq> MAP_FAILED)"

definition make_invalid :: "system \<Rightarrow> MemoryMapping \<Rightarrow> MemoryMapping" where
  "make_invalid sys m =
    (if platform sys = Windows then m\<lparr>m_addr := nullptr\<rparr> else m\<lparr>m_addr := MAP_FAILED\<rparr>)"

definition check_size :: "system \<Rightarrow> size_t \<Rightarrow> size_t" where
  "check_size sys sz = (if sz = 0 then pagesize sys else sz)"

text \<open>
  \<open>resize_fd\<close> reads the members \<open>m_size\<close> and \<open>m_offset\<close>; the constructor calls it when only
  these two are initialised, so they are passed as arguments.
\<close>

definition resize_fd ::
  "system \<Rightarrow> size_t \<Rightarrow> off_t \<Rightarrow> int \<Rightarrow> os_call list \<Rightarrow> (failure + int) \<times> os_call list" where
  "resize_fd sys sz offset fd w =
    (if fd = - 1 then (Inr (- 1), w)
     else if errno_after sys w (FileSize fd) \<noteq> 0
       then (Inl (system_error (errno_after sys w (FileSize fd)) ''file_size''),
             w @ [FileSize fd])
     else if answer sys w (FileSize fd) < sz + offset then
       (if errno_after sys (w @ [FileSize fd]) (ResizeFile fd (sz + offset)) \<noteq> 0
        then (Inl (system_error
                    (errno_after sys (w @ [FileSize fd]) (ResizeFile fd (sz + offset)))
                    ''resize_file''),
              w @ [FileSize fd, ResizeFile fd (sz + offset)])
        else (Inr fd, w @ [FileSize fd, ResizeFile fd (sz + offset)]))
     else (Inr fd, w @ [FileSize fd]))"

text \<open>Unix: \<open>get_protection\<close> reads \<open>m_mapping_mode\<close>, \<open>get_flags\<close> reads \<open>m_fd\<close> as well.\<close>

definition get_protection :: "mapping_mode \<Rightarrow> prot" where
  "get_protection mode = (if mode = readonly then PROT_READ else PROT_READ_WRITE)"

definition get_flags :: "int \<Rightarrow> mapping_mode \<Rightarrow> map_flags" where
  "get_flags fd mode =
    (if fd = - 1 then MAP_PRIVATE_ANONYMOUS
     else if mode = write_shared then MAP_SHARED
     else MAP_PRIVATE)"

text \<open>Windows.\<close>

definition dword_hi :: "64 word \<Rightarrow> dword" where
  "dword_hi x = ucast (drop_bit 32 x)"

definition dword_lo :: "64 word \<Rightarrow> dword" where
  "dword_lo x = ucast (x AND 0xffffffff)"

definition win_get_protection :: "mapping_mode \<Rightarrow> page_protection" where
  "win_get_protection mode =
    (case mode of
       readonly \<Rightarrow> PAGE_READONLY
     | write_private \<Rightarrow> PAGE_WRITECOPY
     | write_shared \<Rightarrow> PAGE_READWRITE)"

definition win_get_flags :: "mapping_mode \<Rightarrow> view_access" where
  "win_get_flags mode =
    (case mode of
       readonly \<Rightarrow> FILE_MAP_READ
     | write_private \<Rightarrow> FILE_MAP_COPY
     | write_shared \<Rightarrow> FILE_MAP_WRITE)"

definition get_handle :: "system \<Rightarrow> int \<Rightarrow> os_call list \<Rightarrow> handle \<times> os_call list" where
  "get_handle sys fd w =
    (if fd = - 1 then (INVALID_HANDLE_VALUE, w)
     else (answer sys w (GetOsfHandle fd), w @ [GetOsfHandle fd]))"

text \<open>
  \<open>create_file_mapping\<close> returns the new handle, the error code for \<open>last_error()\<close> and the
  calls made. The results of \<open>_setmode\<close> and \<open>_get_osfhandle\<close> are not checked by the code.
\<close>

definition create_file_mapping ::
  "system \<Rightarrow> MemoryMapping \<Rightarrow> os_call list \<Rightarrow> handle \<times> int \<times> os_call list" where
  "create_file_mapping sys m w =
    (let w1 = (if m_fd m \<noteq> - 1 then w @ [SetModeBinary (m_fd m)] else w);
         (h, w2) = get_handle sys (m_fd m) w1;
         c = CreateFileMapping h (win_get_protection (m_mapping_mode m))
               (dword_hi (m_size m + m_offset m)) (dword_lo (m_size m + m_offset m))
     in (answer sys w2 c, errno_after sys w2 c, w2 @ [c]))"

definition map_view_of_file ::
  "system \<Rightarrow> MemoryMapping \<Rightarrow> os_call list \<Rightarrow> addr \<times> int \<times> os_call list" where
  "map_view_of_file sys m w =
    (let c = MapViewOfFile (m_handle m) (win_get_flags (m_mapping_mode m))
               (dword_hi (m_offset m)) (dword_lo (m_offset m)) (m_size m)
     in (answer sys w c, errno_after sys w c, w @ [c]))"

subsection \<open>Constructors\<close>

text \<open>
  A constructor returns the new object, or the failure that leaves it; with both, the calls
  made. In the Unix constructor the \<open>assert\<close> stands in the body, after the member
  initialisers have called \<open>mmap\<close>.
\<close>

definition unix_construct ::
  "system \<Rightarrow> size_t \<Rightarrow> mapping_mode \<Rightarrow> int \<Rightarrow> off_t \<Rightarrow> os_call list
    \<Rightarrow> (failure + MemoryMapping) \<times> os_call list" where
  "unix_construct sys sz mode fd offset w =
    (case resize_fd sys (check_size sys sz) offset fd w of
       (Inl e, w1) \<Rightarrow> (Inl e, w1)
     | (Inr fd', w1) \<Rightarrow>
         (let c = Mmap (check_size sys sz) (get_protection mode) (get_flags fd' mode) fd' offset;
              m = \<lparr>m_size = check_size sys sz, m_offset = offset, m_fd = fd',
                   m_mapping_mode = mode, m_handle = nullptr, m_addr = answer sys w1 c\<rparr>
          in if \<not> ndebug sys \<and> fd = - 1 \<and> mode = readonly
               then (Inl (assertion_failed ''!(fd == -1 && mode == mapping_mode::readonly)''),
                     w1 @ [c])
             else if \<not> is_valid sys m
               then (Inl (system_error (errno_after sys w1 c) ''mmap failed''), w1 @ [c])
             else (Inr m, w1 @ [c])))"

definition win_construct ::
  "system \<Rightarrow> size_t \<Rightarrow> mapping_mode \<Rightarrow> int \<Rightarrow> off_t \<Rightarrow> os_call list
    \<Rightarrow> (failure + MemoryMapping) \<times> os_call list" where
  "win_construct sys sz mode fd offset w =
    (case resize_fd sys (check_size sys sz) offset fd w of
       (Inl e, w1) \<Rightarrow> (Inl e, w1)
     | (Inr fd', w1) \<Rightarrow>
         (let m0 = \<lparr>m_size = check_size sys sz, m_offset = offset, m_fd = fd',
                    m_mapping_mode = mode, m_handle = nullptr, m_addr = nullptr\<rparr>;
              (h, e2, w2) = create_file_mapping sys m0 w1;
              m1 = m0\<lparr>m_handle := h\<rparr>
          in if h = nullptr then (Inl (system_error e2 ''CreateFileMapping failed''), w2)
             else
               (let (a, e3, w3) = map_view_of_file sys m1 w2;
                    m2 = m1\<lparr>m_addr := a\<rparr>
                in if \<not> is_valid sys m2
                     then (Inl (system_error e3 ''MapViewOfFile failed''), w3)
                   else (Inr m2, w3))))"

definition construct ::
  "system \<Rightarrow> size_t \<Rightarrow> mapping_mode \<Rightarrow> int \<Rightarrow> off_t \<Rightarrow> os_call list
    \<Rightarrow> (failure + MemoryMapping) \<times> os_call list" where
  "construct sys sz mode fd offset w =
    (if platform sys = Windows then win_construct sys sz mode fd offset w
     else unix_construct sys sz mode fd offset w)"

text \<open>\<open>AnonymousMemoryMapping(size)\<close>: the defaults \<open>fd = -1\<close> and \<open>offset = 0\<close>.\<close>

definition anonymous_construct ::
  "system \<Rightarrow> size_t \<Rightarrow> os_call list \<Rightarrow> (failure + MemoryMapping) \<times> os_call list" where
  "anonymous_construct sys sz w = construct sys sz write_private (- 1) 0 w"

subsection \<open>\<open>unmap\<close>, the destructor and \<open>resize\<close>\<close>

text \<open>
  A member function returns the exception that leaves it (if any), the object as it is then,
  and the calls made.
\<close>

definition unix_unmap ::
  "system \<Rightarrow> MemoryMapping \<Rightarrow> os_call list \<Rightarrow> failure option \<times> MemoryMapping \<times> os_call list" where
  "unix_unmap sys m w =
    (if is_valid sys m then
       (let c = Munmap (m_addr m) (m_size m)
        in if answer sys w c \<noteq> 0
             then (Some (system_error (errno_after sys w c) ''munmap failed''), m, w @ [c])
           else (None, make_invalid sys m, w @ [c]))
     else (None, m, w))"

definition win_close_handle ::
  "system \<Rightarrow> MemoryMapping \<Rightarrow> os_call list \<Rightarrow> failure option \<times> MemoryMapping \<times> os_call list" where
  "win_close_handle sys m w =
    (if m_handle m \<noteq> nullptr then
       (let c = CloseHandle (m_handle m)
        in if answer sys w c = 0
             then (Some (system_error (errno_after sys w c) ''CloseHandle failed''), m, w @ [c])
           else (None, m\<lparr>m_handle := nullptr\<rparr>, w @ [c]))
     else (None, m, w))"

definition win_unmap ::
  "system \<Rightarrow> MemoryMapping \<Rightarrow> os_call list \<Rightarrow> failure option \<times> MemoryMapping \<times> os_call list" where
  "win_unmap sys m w =
    (if is_valid sys m then
       (let c = UnmapViewOfFile (m_addr m)
        in if answer sys w c = 0
             then (Some (system_error (errno_after sys w c) ''UnmapViewOfFile failed''), m,
                   w @ [c])
           else win_close_handle sys (make_invalid sys m) (w @ [c]))
     else win_close_handle sys m w)"

definition unmap ::
  "system \<Rightarrow> MemoryMapping \<Rightarrow> os_call list \<Rightarrow> failure option \<times> MemoryMapping \<times> os_call list" where
  "unmap sys m w = (if platform sys = Windows then win_unmap sys m w else unix_unmap sys m w)"

text \<open>\<open>~MemoryMapping()\<close> catches \<open>std::system_error\<close> and drops it.\<close>

definition destructor ::
  "system \<Rightarrow> MemoryMapping \<Rightarrow> os_call list \<Rightarrow> failure option \<times> MemoryMapping \<times> os_call list" where
  "destructor sys m w =
    (case unmap sys m w of
       (Some (system_error code what), m', w') \<Rightarrow> (None, m', w')
     | r \<Rightarrow> r)"

definition unix_resize ::
  "system \<Rightarrow> MemoryMapping \<Rightarrow> size_t \<Rightarrow> os_call list
    \<Rightarrow> failure option \<times> MemoryMapping \<times> os_call list" where
  "unix_resize sys m new_size w =
    (if \<not> ndebug sys \<and> \<not> 0 < new_size
       then (Some (assertion_failed ''can not resize to zero size''), m, w)
     else if m_fd m = - 1 then
       (if platform sys = Linux then
          (let c = Mremap (m_addr m) (m_size m) new_size;
               m1 = m\<lparr>m_addr := answer sys w c\<rparr>
           in if \<not> is_valid sys m1
                then (Some (system_error (errno_after sys w c) ''mremap failed''), m1, w @ [c])
              else (None, m1\<lparr>m_size := new_size\<rparr>, w @ [c]))
        else if \<not> ndebug sys
          then (Some (assertion_failed
                  ''can't resize anonymous mappings on non-linux systems''), m, w)
        else (None, m, w))
     else
       (case unmap sys m w of
          (Some e, m1, w1) \<Rightarrow> (Some e, m1, w1)
        | (None, m1, w1) \<Rightarrow>
            (let m2 = m1\<lparr>m_size := new_size\<rparr>
             in case resize_fd sys (m_size m2) (m_offset m2) (m_fd m2) w1 of
                  (Inl e, w2) \<Rightarrow> (Some e, m2, w2)
                | (Inr fd', w2) \<Rightarrow>
                    (let c = Mmap new_size (get_protection (m_mapping_mode m2))
                               (get_flags (m_fd m2) (m_mapping_mode m2)) (m_fd m2) (m_offset m2);
                         m3 = m2\<lparr>m_addr := answer sys w2 c\<rparr>
                     in if \<not> is_valid sys m3
                          then (Some (system_error (errno_after sys w2 c)
                                  ''mmap (remap) failed''), m3, w2 @ [c])
                        else (None, m3, w2 @ [c])))))"

definition win_resize ::
  "system \<Rightarrow> MemoryMapping \<Rightarrow> size_t \<Rightarrow> os_call list
    \<Rightarrow> failure option \<times> MemoryMapping \<times> os_call list" where
  "win_resize sys m new_size w =
    (case unmap sys m w of
       (Some e, m1, w1) \<Rightarrow> (Some e, m1, w1)
     | (None, m1, w1) \<Rightarrow>
         (let m2 = m1\<lparr>m_size := new_size\<rparr>
          in case resize_fd sys (m_size m2) (m_offset m2) (m_fd m2) w1 of
               (Inl e, w2) \<Rightarrow> (Some e, m2, w2)
             | (Inr fd', w2) \<Rightarrow>
                 (let (h, e3, w3) = create_file_mapping sys m2 w2;
                      m3 = m2\<lparr>m_handle := h\<rparr>
                  in if h = nullptr
                       then (Some (system_error e3 ''CreateFileMapping failed''), m3, w3)
                     else
                       (let (a, e4, w4) = map_view_of_file sys m3 w3;
                            m4 = m3\<lparr>m_addr := a\<rparr>
                        in if \<not> is_valid sys m4
                             then (Some (system_error e4 ''MapViewOfFile failed''), m4, w4)
                           else (None, m4, w4)))))"

definition resize ::
  "system \<Rightarrow> MemoryMapping \<Rightarrow> size_t \<Rightarrow> os_call list
    \<Rightarrow> failure option \<times> MemoryMapping \<times> os_call list" where
  "resize sys m new_size w =
    (if platform sys = Windows then win_resize sys m new_size w
     else unix_resize sys m new_size w)"

subsection \<open>Moving\<close>

text \<open>
  The move constructor makes a new object: it returns the new object and the source as it
  is left.
\<close>

definition move_construct ::
  "system \<Rightarrow> MemoryMapping \<Rightarrow> os_call list \<Rightarrow> MemoryMapping \<times> MemoryMapping \<times> os_call list" where
  "move_construct sys other w =
    (if platform sys = Windows then
       (\<lparr>m_size = m_size other, m_offset = m_offset other, m_fd = m_fd other,
         m_mapping_mode = m_mapping_mode other, m_handle = m_handle other,
         m_addr = m_addr other\<rparr>,
        (make_invalid sys other)\<lparr>m_handle := nullptr\<rparr>, w)
     else
       (\<lparr>m_size = m_size other, m_offset = m_offset other, m_fd = m_fd other,
         m_mapping_mode = m_mapping_mode other, m_handle = nullptr,
         m_addr = m_addr other\<rparr>,
        make_invalid sys other, w))"

text \<open>
  Move assignment works on two existing objects through references, and the two references
  may name the same object (\<open>m = std::move(m)\<close>). Objects therefore live in a store, and
  \<open>operator=\<close> takes the references \<open>this\<close> and \<open>other\<close>. Every statement reads and writes
  the store as it is then: \<open>unmap()\<close> on \<open>*this\<close>, the member assignments one after the other,
  \<open>other.make_invalid()\<close> and, on Windows, \<open>other.m_handle = nullptr\<close>. The Unix move
  assignment catches \<open>std::system_error\<close> from \<open>unmap()\<close> and drops it; the Windows one is
  \<open>noexcept\<close> and calls \<open>unmap()\<close> unguarded.
\<close>

type_synonym ref = nat
type_synonym store = "ref \<Rightarrow> MemoryMapping"

definition move_assign ::
  "system \<Rightarrow> ref \<Rightarrow> ref \<Rightarrow> store \<Rightarrow> os_call list
    \<Rightarrow> failure option \<times> store \<times> os_call list" where
  "move_assign sys this other st w =
    (case unmap sys (st this) w of
       (r, m1, w1) \<Rightarrow>
         if platform sys = Windows \<and> r \<noteq> None then (Some terminate, st(this := m1), w1)
         else
           (let st1 = st(this := m1);
                st2 = st1(this := (st1 this)\<lparr>m_size := m_size (st1 other)\<rparr>);
                st3 = st2(this := (st2 this)\<lparr>m_offset := m_offset (st2 other)\<rparr>);
                st4 = st3(this := (st3 this)\<lparr>m_fd := m_fd (st3 other)\<rparr>);
                st5 = st4(this := (st4 this)\<lparr>m_mapping_mode := m_mapping_mode (st4 other)\<rparr>);
                st6 = (if platform sys = Windows
                       then st5(this := (st5 this)\<lparr>m_handle := m_handle (st5 other)\<rparr>)
                       else st5);
                st7 = st6(this := (st6 this)\<lparr>m_addr := m_addr (st6 other)\<rparr>);
                st8 = st7(other := make_invalid sys (st7 other));
                st9 = (if platform sys = Windows
                       then st8(other := (st8 other)\<lparr>m_handle := nullptr\<rparr>)
                       else st8)
            in (None, st9, w1)))"

text \<open>
  A call acts on the mapping a region holds when it names the region's address or its
  mapping-object handle. Two regions share a mapping when they hold the same address or the
  same mapping-object handle; by the one-owner rule two different regions never do.
\<close>

definition acts_on :: "os_call \<Rightarrow> MemoryMapping \<Rightarrow> bool" where
  "acts_on c m =
    (case c of
       Munmap a n \<Rightarrow> a = m_addr m
     | Mremap a old new \<Rightarrow> a = m_addr m
     | UnmapViewOfFile a \<Rightarrow> a = m_addr m
     | MapViewOfFile h acc hi lo n \<Rightarrow> h = m_handle m
     | CloseHandle h \<Rightarrow> h = m_handle m
     | _ \<Rightarrow> False)"

definition shares_mapping :: "MemoryMapping \<Rightarrow> MemoryMapping \<Rightarrow> bool" where
  "shares_mapping a b =
    (m_addr a = m_addr b \<or> m_handle a \<noteq> nullptr \<and> m_handle a = m_handle b)"

text \<open>A store with one object, and a store with two.\<close>

definition one_object :: "MemoryMapping \<Rightarrow> store" where
  "one_object m = (\<lambda>r. m)"

definition two_objects :: "MemoryMapping \<Rightarrow> MemoryMapping \<Rightarrow> store" where
  "two_objects a b = (\<lambda>r. if r = 0 then a else b)"

subsection \<open>Accessors\<close>

text \<open>\<open>size()\<close> and \<open>fd()\<close> are named \<open>mapping_size\<close> and \<open>mapping_fd\<close> here.\<close>

definition operator_bool :: "system \<Rightarrow> MemoryMapping \<Rightarrow> bool" where
  "operator_bool sys m = is_valid sys m"

definition mapping_size :: "MemoryMapping \<Rightarrow> size_t" where
  "mapping_size m = m_size m"

definition mapping_fd :: "MemoryMapping \<Rightarrow> int" where
  "mapping_fd m = m_fd m"

definition writable :: "MemoryMapping \<Rightarrow> bool" where
  "writable m = (m_mapping_mode m \<noteq> readonly)"

definition get_addr :: "MemoryMapping \<Rightarrow> addr" where
  "get_addr m = m_addr m"

subsection \<open>\<open>TypedMemoryMapping<T>\<close>\<close>

text \<open>The element type enters only through \<open>sizeof(T)\<close>, the argument \<open>sizeof_T\<close>.\<close>

record TypedMemoryMapping =
  m_mapping :: MemoryMapping

definition typed_construct ::
  "system \<Rightarrow> size_t \<Rightarrow> size_t \<Rightarrow> os_call list
    \<Rightarrow> (failure + TypedMemoryMapping) \<times> os_call list" where
  "typed_construct sys sizeof_T n w =
    (case construct sys (sizeof_T * n) write_private (- 1) 0 w of
       (Inl e, w') \<Rightarrow> (Inl e, w')
     | (Inr m, w') \<Rightarrow> (Inr \<lparr>m_mapping = m\<rparr>, w'))"

definition typed_construct_fd ::
  "system \<Rightarrow> size_t \<Rightarrow> size_t \<Rightarrow> mapping_mode \<Rightarrow> int \<Rightarrow> off_t \<Rightarrow> os_call list
    \<Rightarrow> (failure + TypedMemoryMapping) \<times> os_call list" where
  "typed_construct_fd sys sizeof_T n mode fd offset w =
    (case construct sys (sizeof_T * n) mode fd (sizeof_T * offset) w of
       (Inl e, w') \<Rightarrow> (Inl e, w')
     | (Inr m, w') \<Rightarrow> (Inr \<lparr>m_mapping = m\<rparr>, w'))"

definition typed_unmap ::
  "system \<Rightarrow> TypedMemoryMapping \<Rightarrow> os_call list
    \<Rightarrow> failure option \<times> TypedMemoryMapping \<times> os_call list" where
  "typed_unmap sys t w =
    (case unmap sys (m_mapping t) w of (r, m, w') \<Rightarrow> (r, t\<lparr>m_mapping := m\<rparr>, w'))"

definition typed_resize ::
  "system \<Rightarrow> size_t \<Rightarrow> TypedMemoryMapping \<Rightarrow> size_t \<Rightarrow> os_call list
    \<Rightarrow> failure option \<times> TypedMemoryMapping \<times> os_call list" where
  "typed_resize sys sizeof_T t new_size w =
    (case resize sys (m_mapping t) (sizeof_T * new_size) w of
       (r, m, w') \<Rightarrow> (r, t\<lparr>m_mapping := m\<rparr>, w'))"

text \<open>\<open>size()\<close> asserts that the byte size is a multiple of \<open>sizeof(T)\<close> and divides.\<close>

definition typed_size :: "system \<Rightarrow> size_t \<Rightarrow> TypedMemoryMapping \<Rightarrow> failure + size_t" where
  "typed_size sys sizeof_T t =
    (if \<not> ndebug sys \<and> mapping_size (m_mapping t) mod sizeof_T \<noteq> 0
       then Inl (assertion_failed ''m_mapping.size() % sizeof(T) == 0'')
     else Inr (mapping_size (m_mapping t) div sizeof_T))"

subsection \<open>Systems used in the examples\<close>

text \<open>
  A system with pages of 4096 bytes on which every call succeeds: mappings land at a fixed
  address, handles have a fixed value, files are empty.
\<close>

definition obliging_answer :: "os_call list \<Rightarrow> os_call \<Rightarrow> 64 word" where
  "obliging_answer w c =
    (case c of
       Mmap n p f d off \<Rightarrow> 0x7f0000000000
     | Munmap a n \<Rightarrow> 0
     | Mremap a old new \<Rightarrow> 0x7f0000000000
     | FileSize d \<Rightarrow> 0
     | ResizeFile d n \<Rightarrow> 0
     | SetModeBinary d \<Rightarrow> 0
     | GetOsfHandle d \<Rightarrow> 0x44
     | CreateFileMapping h p hi lo \<Rightarrow> 0x100
     | MapViewOfFile h a hi lo n \<Rightarrow> 0x20000
     | UnmapViewOfFile a \<Rightarrow> 1
     | CloseHandle h \<Rightarrow> 1)"

definition obliging :: "platform \<Rightarrow> bool \<Rightarrow> system" where
  "obliging p nd =
    \<lparr>platform = p, ndebug = nd, pagesize = 4096, answer = obliging_answer,
     errno_after = (\<lambda>w c. 0)\<rparr>"

text \<open>The same system, except that \<open>munmap\<close> fails with \<open>EINVAL\<close> (22).\<close>

definition munmap_fails :: system where
  "munmap_fails =
    \<lparr>platform = Linux, ndebug = False, pagesize = 4096,
     answer = (\<lambda>w c. case c of Munmap a n \<Rightarrow> - 1 | _ \<Rightarrow> obliging_answer w c),
     errno_after = (\<lambda>w c. case c of Munmap a n \<Rightarrow> 22 | _ \<Rightarrow> 0)\<rparr>"

text \<open>
  A Windows system on which a view of more than 4096 bytes cannot be mapped:
  \<open>MapViewOfFile\<close> returns \<open>NULL\<close> and leaves \<open>ERROR_NOT_ENOUGH_MEMORY\<close> (8).
\<close>

definition short_of_views :: system where
  "short_of_views =
    \<lparr>platform = Windows, ndebug = False, pagesize = 4096,
     answer = (\<lambda>w c. case c of
                 MapViewOfFile h a hi lo n \<Rightarrow> if n \<le> 4096 then 0x20000 else 0
               | _ \<Rightarrow> obliging_answer w c),
     errno_after = (\<lambda>w c. case c of
                 MapViewOfFile h a hi lo n \<Rightarrow> if n \<le> 4096 then 0 else 8
               | _ \<Rightarrow> 0)\<rparr>"

subsection \<open>Failed calls\<close>

text \<open>
  When a call counts as failed, by the test the code applies to its result. (The code does
  not look at the results of \<open>_setmode\<close> and \<open>_get_osfhandle\<close>.)
\<close>

definition call_failed :: "system \<Rightarrow> os_call list \<Rightarrow> os_call \<Rightarrow> bool" where
  "call_failed sys w c =
    (case c of
       Mmap n p f d off \<Rightarrow> answer sys w c = MAP_FAILED
     | Munmap a n \<Rightarrow> answer sys w c \<noteq> 0
     | Mremap a old new \<Rightarrow> answer sys w c = MAP_FAILED
     | FileSize d \<Rightarrow> errno_after sys w c \<noteq> 0
     | ResizeFile d n \<Rightarrow> errno_after sys w c \<noteq> 0
     | SetModeBinary d \<Rightarrow> False
     | GetOsfHandle d \<Rightarrow> False
     | CreateFileMapping h p hi lo \<Rightarrow> answer sys w c = nullptr
     | MapViewOfFile h a hi lo n \<Rightarrow> answer sys w c = nullptr
     | UnmapViewOfFile a \<Rightarrow> answer sys w c = 0
     | CloseHandle h \<Rightarrow> answer sys w c = 0)"

text \<open>One of the calls \<open>cs\<close>, made in this order after the calls \<open>w\<close>, failed.\<close>

fun any_failed :: "system \<Rightarrow> os_call list \<Rightarrow> os_call list \<Rightarrow> bool" where
  "any_failed sys w [] = False"
| "any_failed sys w (c # cs) = (call_failed sys w c \<or> any_failed sys (w @ [c]) cs)"

text \<open>The calls an operation added to the calls \<open>w\<close> made before it.\<close>

definition new_calls :: "os_call list \<Rightarrow> os_call list \<Rightarrow> os_call list" where
  "new_calls w w' = drop (length w) w'"
section \<open>Properties of the read pipeline\<close>

lemma run_append: "run d (ts @ us) s = run d us (run d ts s)"
  by (induction ts arbitrary: s) auto

lemma push_fields:
  "pc (push x s) = pc s" "left_by (push x s) = left_by s" "closes (push x s) = closes s"
  "reads (push x s) = reads s" "m_done (push x s) = m_done s" "popped (push x s) = popped s"
  "pushed (push x s) = pushed s @ [x]" "m_queue (push x s) = m_queue s @ [x]"
  by (simp_all add: push_def)

lemma sentinels_push:
  "sentinels (push x s) = (if x = [] then Suc (sentinels s) else sentinels s)"
  by (simp add: sentinels_def push_fields)

lemma sentinels_upd:
  "sentinels (s\<lparr>pc := l\<rparr>) = sentinels s"
  "sentinels (s\<lparr>left_by := e\<rparr>) = sentinels s"
  "sentinels (s\<lparr>closes := c\<rparr>) = sentinels s"
  "sentinels (s\<lparr>reads := r\<rparr>) = sentinels s"
  "sentinels (s\<lparr>m_done := b\<rparr>) = sentinels s"
  by (simp_all add: sentinels_def)

lemma sentinel_last_upd:
  "sentinel_last (s\<lparr>pc := l\<rparr>) = sentinel_last s"
  "sentinel_last (s\<lparr>left_by := e\<rparr>) = sentinel_last s"
  "sentinel_last (s\<lparr>closes := c\<rparr>) = sentinel_last s"
  "sentinel_last (s\<lparr>m_done := b\<rparr>) = sentinel_last s"
  "sentinel_last (push x s) = (x = [])"
  by (simp_all add: sentinel_last_def push_fields)

subsection \<open>The producer's invariant holds in every interleaving\<close>

lemma producer_inv_producer: "producer_inv d s \<Longrightarrow> producer_inv d (producer_step d s)"
  by (cases "pc s")
     (auto simp: producer_inv_def producer_step_def in_the_loop_def left_at_eos_def
           left_cancelled_def sentinels_push sentinels_upd sentinel_last_upd push_fields
           split: read_result.splits)

lemma producer_inv_pop: "producer_inv d s \<Longrightarrow> producer_inv d (consumer_pop s)"
  by (cases "pc s")
     (auto simp: producer_inv_def consumer_pop_def in_the_loop_def left_at_eos_def
           left_cancelled_def sentinels_def sentinel_last_def split: list.splits)

lemma producer_inv_set_done: "producer_inv d s \<Longrightarrow> producer_inv d (s\<lparr>m_done := True\<rparr>)"
  by (cases "pc s")
     (auto simp: producer_inv_def in_the_loop_def left_at_eos_def left_cancelled_def
           sentinels_upd sentinel_last_upd)

lemma producer_inv_step: "producer_inv d s \<Longrightarrow> producer_inv d (step d t s)"
  by (cases t) (simp_all add: step_def producer_inv_producer producer_inv_pop producer_inv_set_done)

lemma producer_inv_run: "producer_inv d s \<Longrightarrow> producer_inv d (run d ts s)"
  by (induction ts arbitrary: s) (auto simp: producer_inv_step)

lemma producer_inv_start: "producer_inv d start"
  by (simp add: producer_inv_def start_def in_the_loop_def sentinels_def)

lemma never_cancelled: "SetDone \<notin> set ts \<Longrightarrow> \<not> m_done s \<Longrightarrow> \<not> m_done (run d ts s)"
proof (induction ts arbitrary: s)
  case Nil
  then show ?case by simp
next
  case (Cons t ts)
  from Cons.prems have "\<not> m_done (step d t s)"
    by (cases t; cases "pc s")
       (auto simp: step_def producer_step_def consumer_pop_def push_fields
             split: read_result.splits list.splits)
  with Cons show ?case by simp
qed

text \<open>
  What the producer has done when its thread has ended, for every decompressor and every
  interleaving. (When \<open>close()\<close> itself fails after the loop, the handler pushes one more
  empty chunk.)
\<close>

lemma ended_cases:
  assumes "ended (run d ts start)"
  shows "left_by (run d ts start) = Some ReadFailed \<and> closes (run d ts start) = 0 \<and>
           sentinels (run d ts start) = 1 \<or>
         left_by (run d ts start) = Some EndOfStream \<and> closes (run d ts start) = 1 \<and>
           sentinels (run d ts start) = (if close_throws d then 2 else 1) \<or>
         left_by (run d ts start) = Some Cancelled \<and> closes (run d ts start) = 1 \<and>
           m_done (run d ts start) \<and>
           sentinels (run d ts start) = (if close_throws d then 1 else 0)"
  using producer_inv_run [OF producer_inv_start, of d ts] assms
  by (auto simp: producer_inv_def ended_def left_at_eos_def left_cancelled_def)

text \<open>
  C1, as the claim states it, fails. The decompressor has the chunks \<open>a\<close> and \<open>b\<close>. The
  producer tests the flag, reads \<open>a\<close> and pushes it; the consumer sets the cancellation
  flag; the producer leaves the backpressure test, sees the flag at \<open>while (!m_done)\<close>,
  calls \<open>close()\<close> and returns \<open>true\<close>. Its thread has ended and no sentinel was pushed: the
  queue holds \<open>a\<close> only.
\<close>

theorem cancelled_run_pushes_no_sentinel:
  "ended (run \<lparr>read_at = scripted [Data ''a'', Data ''b''], close_throws = False\<rparr>
       [Producer, Producer, Producer, SetDone, Producer, Producer, Producer] start) \<and>
   m_done (run \<lparr>read_at = scripted [Data ''a'', Data ''b''], close_throws = False\<rparr>
       [Producer, Producer, Producer, SetDone, Producer, Producer, Producer] start) \<and>
   pushed (run \<lparr>read_at = scripted [Data ''a'', Data ''b''], close_throws = False\<rparr>
       [Producer, Producer, Producer, SetDone, Producer, Producer, Producer] start) = [''a''] \<and>
   sentinels (run \<lparr>read_at = scripted [Data ''a'', Data ''b''], close_throws = False\<rparr>
       [Producer, Producer, Producer, SetDone, Producer, Producer, Producer] start) = 0"
  by (simp add: step_def producer_step_def push_def start_def scripted_def ended_def
      sentinels_def)

text \<open>
  C1, amended. Let the producer's thread have ended, with \<open>close()\<close> not failing. The loop was
  left at end-of-stream, by a failure of \<open>read()\<close>, or because the producer saw the
  cancellation flag. In the first two cases the sentinel was pushed exactly once and is the
  last chunk pushed. In the third the flag is set and no sentinel was pushed. A run in which
  the flag is never set pushes the sentinel exactly once.
\<close>

theorem sentinel_once_unless_cancelled:
  assumes "ended (run d ts start)" and "\<not> close_throws d"
  shows "(left_by (run d ts start) = Some EndOfStream \<or>
          left_by (run d ts start) = Some ReadFailed \<or>
          left_by (run d ts start) = Some Cancelled) \<and>
         sentinels (run d ts start) =
           (if left_by (run d ts start) = Some Cancelled then 0 else 1) \<and>
         (left_by (run d ts start) = Some Cancelled \<longrightarrow> m_done (run d ts start)) \<and>
         (left_by (run d ts start) \<noteq> Some Cancelled \<longrightarrow> sentinel_last (run d ts start)) \<and>
         (SetDone \<notin> set ts \<longrightarrow> sentinels (run d ts start) = 1)"
proof -
  have "SetDone \<notin> set ts \<Longrightarrow> \<not> m_done (run d ts start)"
    by (rule never_cancelled) (simp_all add: start_def)
  with producer_inv_run [OF producer_inv_start, of d ts] assms show ?thesis
    by (auto simp: producer_inv_def ended_def left_at_eos_def left_cancelled_def)
qed

theorem sentinel_once_unless_cancelled_witness:
  "ended (run \<lparr>read_at = scripted [Data ''a''], close_throws = False\<rparr>
      [Producer, Producer, Producer, Producer, Producer, Producer, Producer, Producer] start) \<and>
   \<not> close_throws \<lparr>read_at = scripted [Data ''a''], close_throws = False\<rparr> \<and>
   left_by (run \<lparr>read_at = scripted [Data ''a''], close_throws = False\<rparr>
      [Producer, Producer, Producer, Producer, Producer, Producer, Producer, Producer] start)
     = Some EndOfStream \<and>
   sentinels (run \<lparr>read_at = scripted [Data ''a''], close_throws = False\<rparr>
      [Producer, Producer, Producer, Producer, Producer, Producer, Producer, Producer] start) = 1"
proof -
  let ?d = "\<lparr>read_at = scripted [Data ''a''], close_throws = False\<rparr>"
  let ?ts = "[Producer, Producer, Producer, Producer, Producer, Producer, Producer, Producer]"
  have e: "ended (run ?d ?ts start)"
    by (simp add: step_def producer_step_def push_def start_def scripted_def ended_def)
  have c: "\<not> close_throws ?d" by simp
  have l: "left_by (run ?d ?ts start) = Some EndOfStream"
    by (simp add: step_def producer_step_def push_def start_def scripted_def)
  from sentinel_once_unless_cancelled [OF e c] e c l show ?thesis by simp
qed

text \<open>
  C2, as the claim states it, fails. The first \<open>read()\<close> fails: control goes from the call to
  the handler, which pushes the sentinel and rethrows. The thread has ended and \<open>close()\<close>
  was never called.
\<close>

theorem read_failure_skips_close:
  "ended (run \<lparr>read_at = scripted [ReadThrows], close_throws = False\<rparr>
       [Producer, Producer, Producer] start) \<and>
   left_by (run \<lparr>read_at = scripted [ReadThrows], close_throws = False\<rparr>
       [Producer, Producer, Producer] start) = Some ReadFailed \<and>
   closes (run \<lparr>read_at = scripted [ReadThrows], close_throws = False\<rparr>
       [Producer, Producer, Producer] start) = 0"
  by (simp add: step_def producer_step_def push_def start_def scripted_def ended_def)

text \<open>
  C2, amended. \<open>close()\<close> is never called more than once, and never while the loop is
  running. When the producer's thread has ended, \<open>close()\<close> was called exactly once if the
  loop was left at end-of-stream or on cancellation, and not at all if \<open>read()\<close> failed.
\<close>

theorem close_once_unless_read_failed:
  "closes (run d ts start) \<le> 1 \<and>
   (left_by (run d ts start) = None \<longrightarrow> closes (run d ts start) = 0) \<and>
   (ended (run d ts start) \<longrightarrow>
      closes (run d ts start) = (if left_by (run d ts start) = Some ReadFailed then 0 else 1))"
  using producer_inv_run [OF producer_inv_start, of d ts]
  by (cases "pc (run d ts start)")
     (auto simp: producer_inv_def ended_def in_the_loop_def left_at_eos_def left_cancelled_def)

theorem close_once_unless_read_failed_witness:
  "ended (run \<lparr>read_at = scripted [Data ''a''], close_throws = False\<rparr>
      [Producer, Producer, Producer, Producer, Producer, Producer, Producer, Producer] start) \<and>
   left_by (run \<lparr>read_at = scripted [Data ''a''], close_throws = False\<rparr>
      [Producer, Producer, Producer, Producer, Producer, Producer, Producer, Producer] start)
     = Some EndOfStream \<and>
   closes (run \<lparr>read_at = scripted [Data ''a''], close_throws = False\<rparr>
      [Producer, Producer, Producer, Producer, Producer, Producer, Producer, Producer] start) = 1"
proof -
  let ?d = "\<lparr>read_at = scripted [Data ''a''], close_throws = False\<rparr>"
  let ?ts = "[Producer, Producer, Producer, Producer, Producer, Producer, Producer, Producer]"
  have e: "ended (run ?d ?ts start)"
    by (simp add: step_def producer_step_def push_def start_def scripted_def ended_def)
  have l: "left_by (run ?d ?ts start) = Some EndOfStream"
    by (simp add: step_def producer_step_def push_def start_def scripted_def)
  from close_once_unless_read_failed [of ?d ?ts] e l show ?thesis by simp
qed

subsection \<open>Chunks reach the consumer in the decompressor's order\<close>

lemma fifo_inv_producer: "fifo_inv s \<Longrightarrow> fifo_inv (producer_step d s)"
  by (cases "pc s")
     (auto simp: fifo_inv_def producer_step_def push_fields split: read_result.splits)

lemma fifo_inv_pop: "fifo_inv s \<Longrightarrow> fifo_inv (consumer_pop s)"
  by (auto simp: fifo_inv_def consumer_pop_def butlast_append split: list.splits)

lemma fifo_inv_step: "fifo_inv s \<Longrightarrow> fifo_inv (step d t s)"
  by (cases t) (auto simp: step_def fifo_inv_producer fifo_inv_pop, simp add: fifo_inv_def)

lemma fifo_inv_run: "fifo_inv s \<Longrightarrow> fifo_inv (run d ts s)"
  by (induction ts arbitrary: s) (auto simp: fifo_inv_step)

lemma fifo_inv_start: "fifo_inv start"
  by (simp add: fifo_inv_def start_def)

lemma yields_read:
  assumes "yields d cs" "n \<le> length cs"
  shows "read_at d n = Data ((cs @ [[]]) ! n)"
  using assms by (cases "n = length cs") (auto simp: yields_def nth_append)

lemma yields_last:
  assumes "yields d cs" "n \<le> length cs"
  shows "(cs @ [[]]) ! n = [] \<longleftrightarrow> n = length cs"
proof (cases "n = length cs")
  case True
  then show ?thesis by simp
next
  case False
  with assms(2) have lt: "n < length cs" by simp
  then have "cs ! n \<in> set cs" by simp
  with assms(1) have "cs ! n \<noteq> []" by (auto simp: yields_def)
  with lt show ?thesis by (simp add: nth_append)
qed

lemma follows_push:
  assumes "yields d cs" "follows cs s" "pc s = PushData x"
  shows "follows cs (producer_step d s)"
proof -
  from assms have r: "0 < reads s" "reads s - 1 \<le> length cs"
    and x: "x = (cs @ [[]]) ! (reads s - 1)"
    and p: "pushed s = take (reads s - 1) cs" and l: "left_by s = None"
    by (auto simp: follows_def)
  show ?thesis
  proof (cases "x = []")
    case True
    with yields_last [OF assms(1) r(2)] x have "reads s - 1 = length cs" by simp
    with r p True assms(3) show ?thesis
      by (simp add: follows_def producer_step_def after_loop_def push_fields)
  next
    case False
    with yields_last [OF assms(1) r(2)] x have "reads s - 1 \<noteq> length cs" by simp
    with r(2) have lt: "reads s - 1 < length cs" by simp
    then have "x = cs ! (reads s - 1)" using x by (simp add: nth_append)
    then have "take (reads s - 1) cs @ [x] = take (Suc (reads s - 1)) cs"
      using lt by (simp add: take_Suc_conv_app_nth)
    with r p l False lt assms(3) show ?thesis
      by (simp add: follows_def producer_step_def in_loop_def push_fields)
  qed
qed

lemma follows_producer:
  assumes "yields d cs" "follows cs s"
  shows "follows cs (producer_step d s)"
proof (cases "pc s")
  case (PushData x)
  with assms show ?thesis by (rule follows_push)
next
  case ReadCall
  with assms(2) have "reads s \<le> length cs" by (simp add: follows_def in_loop_def)
  from yields_read [OF assms(1) this] ReadCall assms(2) show ?thesis
    by (simp add: follows_def producer_step_def in_loop_def)
qed (use assms(2) in
    \<open>auto simp: follows_def producer_step_def in_loop_def after_loop_def push_fields\<close>)

lemma follows_pop: "follows cs s \<Longrightarrow> follows cs (consumer_pop s)"
  by (cases "pc s")
     (auto simp: follows_def consumer_pop_def in_loop_def after_loop_def split: list.splits)

lemma follows_set_done: "follows cs s \<Longrightarrow> follows cs (s\<lparr>m_done := True\<rparr>)"
  by (cases "pc s") (auto simp: follows_def in_loop_def after_loop_def)

lemma follows_step: "yields d cs \<Longrightarrow> follows cs s \<Longrightarrow> follows cs (step d t s)"
  by (cases t) (simp_all add: step_def follows_producer follows_pop follows_set_done)

lemma follows_run: "yields d cs \<Longrightarrow> follows cs s \<Longrightarrow> follows cs (run d ts s)"
  by (induction ts arbitrary: s) (auto simp: follows_step)

lemma follows_start: "follows cs start"
  by (simp add: follows_def start_def in_loop_def)

lemma prefix_of_shapes:
  assumes "[] \<notin> set cs" "[] \<notin> set (butlast p)"
    and "prefix p (take k cs) \<or> prefix p (cs @ [[]]) \<or> prefix p (cs @ [[], []])"
  shows "prefix p (cs @ [[]])"
proof -
  { assume "prefix p (take k cs)"
    moreover have "prefix (take k cs) (cs @ [[]])" by (simp add: take_is_prefix)
    ultimately have ?thesis by (rule prefix_order.trans) }
  moreover
  { assume a: "prefix p (cs @ [[], []])"
    have "cs @ [[], []] = (cs @ [[]]) @ [[]]" by simp
    with a have "p = (cs @ [[]]) @ [[]] \<or> prefix p (cs @ [[]])" by (simp only: prefix_snoc)
    with assms(2) have ?thesis by (auto simp: butlast_append) }
  ultimately show ?thesis using assms(3) by blast
qed

lemma observed_prefix:
  assumes "yields d cs" "follows cs s" "fifo_inv s"
    and "\<not> m_done s \<or> reads s = Suc (length cs)"
  shows "prefix (popped s) (cs @ [[]])"
proof -
  from assms(3) have eq: "pushed s = popped s @ m_queue s"
    and bl: "[] \<notin> set (butlast (popped s))"
    by (simp_all add: fifo_inv_def)
  from eq have pp: "prefix (popped s) (pushed s)" by (rule prefixI)
  from assms(1) have ne: "[] \<notin> set cs" by (simp add: yields_def)
  from assms(2,4) have "pushed s = take (reads s) cs \<or> pushed s = take (reads s - 1) cs
      \<or> pushed s = cs @ [[]] \<or> pushed s = cs @ [[], []]"
    by (cases "pc s") (auto simp: follows_def in_loop_def after_loop_def)
  with pp have
    "(prefix (popped s) (take (reads s) cs) \<or> prefix (popped s) (cs @ [[]])
        \<or> prefix (popped s) (cs @ [[], []])) \<or>
     (prefix (popped s) (take (reads s - 1) cs) \<or> prefix (popped s) (cs @ [[]])
        \<or> prefix (popped s) (cs @ [[], []]))" by auto
  then show ?thesis using prefix_of_shapes [OF ne bl] by blast
qed

lemma sentinel_seen:
  assumes "[] \<notin> set cs" "prefix p (cs @ [[]])" "[] \<in> set p"
  shows "p = cs @ [[]]"
proof -
  from assms(2) have "p = cs @ [[]] \<or> prefix p cs" by (simp only: prefix_snoc)
  moreover have "\<not> prefix p cs" using assms(1,3) by (auto simp: prefix_def)
  ultimately show ?thesis by simp
qed

lemma round_between:
  assumes "yields d cs" "k < length cs"
  shows "run d round (between cs k) = between cs (Suc k)"
proof -
  from assms have rd: "read_at d k = Data (cs ! k)" by (simp add: yields_def)
  from assms(2) have "cs ! k \<in> set cs" by simp
  with assms(1) have ne: "cs ! k \<noteq> []" by (auto simp: yields_def)
  from assms(1) have "[] \<notin> set (take k cs)" by (auto simp: yields_def dest: in_set_takeD)
  with rd ne assms(2) show ?thesis
    by (simp add: round_def between_def start_def step_def producer_step_def push_def
        consumer_pop_def take_Suc_conv_app_nth)
qed

lemma rounds_between:
  assumes "yields d cs"
  shows "k + n \<le> length cs \<Longrightarrow>
    run d (concat (replicate n round)) (between cs k) = between cs (k + n)"
proof (induction n arbitrary: k)
  case 0
  then show ?case by simp
next
  case (Suc n)
  then have "k < length cs" "Suc k + n \<le> length cs" by simp_all
  with Suc.IH [of "Suc k"] round_between [OF assms, of k] show ?case
    by (simp add: run_append)
qed

lemma drain_schedule_popped:
  assumes "yields d cs"
  shows "popped (run d (drain_schedule (length cs)) start) = cs @ [[]]"
proof -
  have s: "start = between cs 0" by (simp add: between_def start_def)
  from assms have rd: "read_at d (length cs) = Data []" by (simp add: yields_def)
  from assms have "[] \<notin> set cs" by (simp add: yields_def)
  with rd rounds_between [OF assms, of 0 "length cs"] show ?thesis
    unfolding drain_schedule_def run_append s
    by (simp add: between_def start_def step_def producer_step_def push_def consumer_pop_def)
qed

text \<open>
  While the run is not cancelled and the consumer has not yet seen everything, one of the
  two threads can take a step that brings the run nearer to its end.
\<close>

lemma progress:
  assumes y: "yields d cs" and f: "follows cs s" and q: "fifo_inv s" and n: "\<not> m_done s"
    and u: "popped s \<noteq> cs @ [[]]"
  shows "\<exists>t. t \<noteq> SetDone \<and> effort cs (step d t s) < effort cs s"
proof -
  from y have ne: "[] \<notin> set cs" by (simp add: yields_def)
  from n have "\<not> m_done s \<or> reads s = Suc (length cs)" by simp
  from observed_prefix [OF y f q this] sentinel_seen [OF ne] u
  have ns: "[] \<notin> set (popped s)" by blast
  show ?thesis
  proof (cases "m_queue s")
    case (Cons x xs)
    with ns have "effort cs (step d ConsumerPop s) < effort cs s"
      by (simp add: step_def consumer_pop_def effort_def)
    then show ?thesis by blast
  next
    case Nil
    with q have pp: "pushed s = popped s" by (simp add: fifo_inv_def)
    have "effort cs (step d Producer s) < effort cs s"
    proof (cases "pc s")
      case LoopTest
      with n show ?thesis by (simp add: step_def producer_step_def effort_def)
    next
      case ReadCall
      with f have r: "reads s \<le> length cs" by (simp add: follows_def in_loop_def)
      from yields_read [OF y r] ReadCall r show ?thesis
        by (simp add: step_def producer_step_def effort_def)
    next
      case (PushData x)
      with Nil show ?thesis
        by (simp add: step_def producer_step_def effort_def push_fields)
    next
      case WaitSize
      with Nil show ?thesis by (simp add: step_def producer_step_def effort_def)
    next
      case WaitDone
      with n show ?thesis by (simp add: step_def producer_step_def effort_def)
    next
      case CloseCall
      with f n pp u show ?thesis by (simp add: follows_def after_loop_def)
    next
      case Catch
      with f n pp u show ?thesis by (simp add: follows_def after_loop_def)
    next
      case Returned
      with f n pp u show ?thesis by (simp add: follows_def after_loop_def)
    next
      case Rethrown
      with f n pp ns show ?thesis by (auto simp: follows_def)
    qed
    then show ?thesis by blast
  qed
qed

lemma can_complete:
  assumes y: "yields d cs"
  shows "follows cs s \<Longrightarrow> fifo_inv s \<Longrightarrow> \<not> m_done s \<Longrightarrow>
    \<exists>ts. popped (run d ts s) = cs @ [[]]"
proof (induction "effort cs s" arbitrary: s rule: less_induct)
  case less
  show ?case
  proof (cases "popped s = cs @ [[]]")
    case True
    then have "popped (run d [] s) = cs @ [[]]" by simp
    then show ?thesis by blast
  next
    case False
    from progress [OF y less.prems False] obtain t
      where t: "t \<noteq> SetDone" and e: "effort cs (step d t s) < effort cs s" by blast
    from t less.prems(3) have "\<not> m_done (run d [t] s)"
      by (intro never_cancelled) simp_all
    then have n: "\<not> m_done (step d t s)" by simp
    from less.hyps [OF e follows_step [OF y less.prems(1)] fifo_inv_step [OF less.prems(2)] n]
    obtain ts where "popped (run d ts (step d t s)) = cs @ [[]]" by blast
    then have "popped (run d (t # ts) s) = cs @ [[]]" by simp
    then show ?thesis by blast
  qed
qed

text \<open>
  C3. Let the decompressor yield the non-empty chunks \<open>cs\<close> and then an empty chunk. In every
  interleaving, what the consumer has popped followed by what is pending in the queue is
  what the producer pushed, in that order. In every run that is not cancelled, and in every
  run in which the decompressor has produced all of \<open>cs\<close> and the empty chunk, the consumer's
  observation is an initial part of \<open>cs\<close> followed by the sentinel, and once it holds the
  sentinel it is exactly \<open>cs\<close> followed by the sentinel. The consumer does get there: under
  the schedule \<open>drain_schedule\<close> it observes exactly \<open>cs\<close> and then the sentinel, and every
  run that is not cancelled can be continued to a run in which it has.
\<close>

theorem consumer_observes_in_order:
  assumes "yields d cs"
  shows "popped (run d ts start) @ m_queue (run d ts start) = pushed (run d ts start) \<and>
         (SetDone \<notin> set ts \<or> reads (run d ts start) = Suc (length cs) \<longrightarrow>
            prefix (popped (run d ts start)) (cs @ [[]]) \<and>
            ([] \<in> set (popped (run d ts start)) \<longrightarrow> popped (run d ts start) = cs @ [[]])) \<and>
         popped (run d (drain_schedule (length cs)) start) = cs @ [[]] \<and>
         (SetDone \<notin> set ts \<longrightarrow> (\<exists>us. popped (run d (ts @ us) start) = cs @ [[]]))"
proof -
  let ?s = "run d ts start"
  have f: "fifo_inv ?s" by (rule fifo_inv_run [OF fifo_inv_start])
  have g: "follows cs ?s" by (rule follows_run [OF assms follows_start])
  from f have 1: "popped ?s @ m_queue ?s = pushed ?s" by (simp add: fifo_inv_def)
  from assms have ne: "[] \<notin> set cs" by (simp add: yields_def)
  have 2: "SetDone \<notin> set ts \<or> reads ?s = Suc (length cs) \<longrightarrow>
            prefix (popped ?s) (cs @ [[]]) \<and>
            ([] \<in> set (popped ?s) \<longrightarrow> popped ?s = cs @ [[]])"
  proof
    assume "SetDone \<notin> set ts \<or> reads ?s = Suc (length cs)"
    then have "\<not> m_done ?s \<or> reads ?s = Suc (length cs)"
      using never_cancelled [of ts start d] by (auto simp: start_def)
    from observed_prefix [OF assms g f this] sentinel_seen [OF ne]
    show "prefix (popped ?s) (cs @ [[]]) \<and>
          ([] \<in> set (popped ?s) \<longrightarrow> popped ?s = cs @ [[]])"
      by blast
  qed
  have 3: "popped (run d (drain_schedule (length cs)) start) = cs @ [[]]"
    by (rule drain_schedule_popped [OF assms])
  have 4: "SetDone \<notin> set ts \<longrightarrow> (\<exists>us. popped (run d (ts @ us) start) = cs @ [[]])"
  proof
    assume "SetDone \<notin> set ts"
    then have "\<not> m_done ?s" using never_cancelled [of ts start d] by (simp add: start_def)
    from can_complete [OF assms g f this]
    show "\<exists>us. popped (run d (ts @ us) start) = cs @ [[]]" by (simp add: run_append)
  qed
  from 1 2 3 4 show ?thesis by blast
qed

theorem consumer_observes_in_order_witness:
  "yields \<lparr>read_at = scripted [Data ''a'', Data ''b'', Data ''c''], close_throws = False\<rparr>
      [''a'', ''b'', ''c''] \<and>
   SetDone \<notin> set (drain_schedule 3) \<and>
   popped (run \<lparr>read_at = scripted [Data ''a'', Data ''b'', Data ''c''], close_throws = False\<rparr>
      (drain_schedule 3) start) = [''a'', ''b'', ''c'', []] \<and>
   m_queue (run \<lparr>read_at = scripted [Data ''a'', Data ''b'', Data ''c''], close_throws = False\<rparr>
      (drain_schedule 3) start) = []"
proof -
  let ?d = "\<lparr>read_at = scripted [Data ''a'', Data ''b'', Data ''c''], close_throws = False\<rparr>"
  have y: "yields ?d [''a'', ''b'', ''c'']"
    by (auto simp: yields_def scripted_def less_Suc_eq numeral_3_eq_3)
  have n: "SetDone \<notin> set (drain_schedule 3)"
    by (simp add: drain_schedule_def round_def numeral_3_eq_3)
  have p: "pushed (run ?d (drain_schedule 3) start) = [''a'', ''b'', ''c'', []]"
    by (simp add: drain_schedule_def round_def numeral_3_eq_3 step_def producer_step_def
        push_def consumer_pop_def start_def scripted_def)
  have l: "length [''a'', ''b'', ''c''] = (3::nat)" by simp
  from consumer_observes_in_order [OF y, of "drain_schedule 3"]
  have f: "popped (run ?d (drain_schedule 3) start) @ m_queue (run ?d (drain_schedule 3) start)
      = pushed (run ?d (drain_schedule 3) start)"
    and o: "popped (run ?d (drain_schedule 3) start) = [''a'', ''b'', ''c''] @ [[]]"
    unfolding l by blast+
  from f o p have "m_queue (run ?d (drain_schedule 3) start) = []" by simp
  with y n o show ?thesis by simp
qed

section \<open>Properties of the memory mappings\<close>

lemma new_calls_simps:
  "new_calls w w = []" "new_calls w (w @ cs) = cs"
  by (simp_all add: new_calls_def)

lemma any_failed_append:
  "any_failed sys w (cs @ ds) = (any_failed sys w cs \<or> any_failed sys (w @ cs) ds)"
  by (induction cs arbitrary: w) auto

lemma is_valid_make_invalid: "\<not> is_valid sys (make_invalid sys m)"
  by (simp add: is_valid_def make_invalid_def)

subsection \<open>Creating an anonymous mapping\<close>

text \<open>
  C4, as the claim states it, fails. On a system with pages of 4096 bytes an anonymous
  writable mapping of 1024 bytes is requested. \<open>check_size\<close> replaces only a size of 0: the
  code passes 1024 to \<open>mmap\<close>, and \<open>size()\<close> reports 1024, not \<open>max(1024, 4096)\<close>.
\<close>

theorem anonymous_create_keeps_small_size:
  "construct (obliging Linux False) 1024 write_private (- 1) 0 [] =
     (Inr \<lparr>m_size = 1024, m_offset = 0, m_fd = - 1, m_mapping_mode = write_private,
           m_handle = 0, m_addr = 0x7f0000000000\<rparr>,
      [Mmap 1024 PROT_READ_WRITE MAP_PRIVATE_ANONYMOUS (- 1) 0]) \<and>
   mapping_size \<lparr>m_size = 1024, m_offset = 0, m_fd = - 1, m_mapping_mode = write_private,
           m_handle = 0, m_addr = 0x7f0000000000\<rparr> = 1024 \<and>
   max 1024 (pagesize (obliging Linux False)) = 4096"
  by (simp add: construct_def unix_construct_def obliging_def obliging_answer_def resize_fd_def
      check_size_def get_protection_def get_flags_def is_valid_def MAP_FAILED_def nullptr_def
      mapping_size_def)

text \<open>
  C4, amended. After a successful anonymous create (\<open>fd = -1\<close>) of \<open>sz\<close> bytes the mapping
  is valid, and \<open>size()\<close> is \<open>sz\<close> when \<open>sz > 0\<close> and the page size when \<open>sz = 0\<close>. In the
  Unix implementation this value is the length passed to the one \<open>mmap\<close> call made.
\<close>

theorem anonymous_create_size:
  assumes "construct sys sz mode (- 1) 0 w = (Inr m, w')"
  shows "mapping_size m = (if sz = 0 then pagesize sys else sz) \<and>
         operator_bool sys m \<and> mapping_fd m = - 1 \<and>
         (platform sys \<noteq> Windows \<longrightarrow>
            w' = w @ [Mmap (if sz = 0 then pagesize sys else sz) (get_protection mode)
                        MAP_PRIVATE_ANONYMOUS (- 1) 0])"
proof (cases "platform sys = Windows")
  case True
  with assms show ?thesis
    by (auto simp: construct_def win_construct_def resize_fd_def check_size_def
        create_file_mapping_def map_view_of_file_def get_handle_def Let_def
        operator_bool_def mapping_size_def mapping_fd_def
        split: if_splits prod.splits)
next
  case False
  with assms show ?thesis
    by (auto simp: construct_def unix_construct_def resize_fd_def check_size_def
        get_flags_def Let_def operator_bool_def mapping_size_def mapping_fd_def
        split: if_splits)
qed

theorem anonymous_create_size_witness:
  "construct (obliging Linux False) 0 write_private (- 1) 0 [] =
     (Inr \<lparr>m_size = 4096, m_offset = 0, m_fd = - 1, m_mapping_mode = write_private,
           m_handle = 0, m_addr = 0x7f0000000000\<rparr>,
      [Mmap 4096 PROT_READ_WRITE MAP_PRIVATE_ANONYMOUS (- 1) 0]) \<and>
   mapping_size \<lparr>m_size = 4096, m_offset = 0, m_fd = - 1, m_mapping_mode = write_private,
           m_handle = 0, m_addr = 0x7f0000000000\<rparr> = pagesize (obliging Linux False)"
proof -
  have c: "construct (obliging Linux False) 0 write_private (- 1) 0 [] =
     (Inr \<lparr>m_size = 4096, m_offset = 0, m_fd = - 1, m_mapping_mode = write_private,
           m_handle = 0, m_addr = 0x7f0000000000\<rparr>,
      [Mmap 4096 PROT_READ_WRITE MAP_PRIVATE_ANONYMOUS (- 1) 0])"
    by (simp add: construct_def unix_construct_def obliging_def obliging_answer_def
        resize_fd_def check_size_def get_protection_def get_flags_def is_valid_def
        MAP_FAILED_def nullptr_def)
  from anonymous_create_size [OF c] c show ?thesis by simp
qed

subsection \<open>Moving\<close>

lemma unmap_calls:
  assumes "unmap sys m w = (r, m', w')"
  shows "set (new_calls w w') \<subseteq>
           {Munmap (m_addr m) (m_size m), UnmapViewOfFile (m_addr m)} \<union>
           (if m_handle m \<noteq> nullptr then {CloseHandle (m_handle m)} else {})"
    and "\<not> is_valid sys m \<and> (platform sys = Windows \<longrightarrow> m_handle m = nullptr) \<longrightarrow> w' = w"
    and "is_valid sys m \<longrightarrow> new_calls w w' \<noteq> []"
  using assms
  by (auto simp: unmap_def unix_unmap_def win_unmap_def win_close_handle_def Let_def
      make_invalid_def new_calls_simps split: if_splits)

lemma unmap_returns:
  assumes "unmap sys m w = (r, m', w')"
  shows "r = None \<or> (\<exists>code what. r = Some (system_error code what))"
  using assms
  by (auto simp: unmap_def unix_unmap_def win_unmap_def win_close_handle_def Let_def
      split: if_splits)

text \<open>What move assignment leaves in the store, for two objects and for one.\<close>

lemma move_assign_apart:
  assumes "this \<noteq> other" "unmap sys (st this) w = (r, m1, w1)"
    "platform sys = Windows \<longrightarrow> r = None"
  shows "move_assign sys this other st w =
    (None,
     st(this := (if platform sys = Windows
                 then m1\<lparr>m_size := m_size (st other), m_offset := m_offset (st other),
                        m_fd := m_fd (st other), m_mapping_mode := m_mapping_mode (st other),
                        m_handle := m_handle (st other), m_addr := m_addr (st other)\<rparr>
                 else m1\<lparr>m_size := m_size (st other), m_offset := m_offset (st other),
                        m_fd := m_fd (st other), m_mapping_mode := m_mapping_mode (st other),
                        m_addr := m_addr (st other)\<rparr>),
        other := (if platform sys = Windows
                  then (make_invalid sys (st other))\<lparr>m_handle := nullptr\<rparr>
                  else make_invalid sys (st other))),
     w1)"
  using assms by (auto simp: move_assign_def Let_def fun_upd_twist)

lemma move_assign_same:
  assumes "unmap sys (st this) w = (r, m1, w1)" "platform sys = Windows \<longrightarrow> r = None"
  shows "move_assign sys this this st w =
    (None,
     st(this := (if platform sys = Windows
                 then (make_invalid sys m1)\<lparr>m_handle := nullptr\<rparr>
                 else make_invalid sys m1)),
     w1)"
  using assms by (auto simp: move_assign_def Let_def make_invalid_def)

lemma move_assign_terminates:
  assumes "unmap sys (st this) w = (Some e, m1, w1)" "platform sys = Windows"
  shows "move_assign sys this other st w = (Some terminate, st(this := m1), w1)"
  using assms by (simp add: move_assign_def)

lemma move_assign_cases:
  assumes "unmap sys (st this) w = (r, m1, w1)"
  shows "(platform sys = Windows \<and> r \<noteq> None \<and>
            move_assign sys this other st w = (Some terminate, st(this := m1), w1)) \<or>
         (\<exists>st'. move_assign sys this other st w = (None, st', w1) \<and>
            \<not> is_valid sys (st' other) \<and>
            (\<forall>x. x \<noteq> this \<and> x \<noteq> other \<longrightarrow> st' x = st x) \<and>
            (this \<noteq> other \<longrightarrow>
               m_size (st' this) = m_size (st other) \<and> m_offset (st' this) = m_offset (st other) \<and>
               m_fd (st' this) = m_fd (st other) \<and>
               m_mapping_mode (st' this) = m_mapping_mode (st other) \<and>
               m_addr (st' this) = m_addr (st other)))"
proof (cases "platform sys = Windows \<and> r \<noteq> None")
  case True
  then obtain e where "r = Some e" by auto
  with assms True show ?thesis
    by (simp add: move_assign_terminates [where st = st and this = this])
next
  case False
  then have ok: "platform sys = Windows \<longrightarrow> r = None" by simp
  show ?thesis
  proof (cases "this = other")
    case True
    with move_assign_same [where st = st and this = this, OF assms ok] show ?thesis
      by (simp add: is_valid_def make_invalid_def)
  next
    case False
    with move_assign_apart [where st = st and this = this, OF False assms ok] show ?thesis
      by (simp add: is_valid_def make_invalid_def)
  qed
qed

text \<open>
  C5, as the claim states it, fails when source and destination are the same object. A
  valid region is move-assigned to itself. \<open>operator=\<close> has no test for this: it calls
  \<open>unmap()\<close> on \<open>*this\<close>, which is the source, so \<open>munmap\<close> is called on the source's own
  mapping; the member assignments change nothing and \<open>make_invalid\<close> leaves the object
  invalid.
\<close>

theorem self_move_assign_unmaps_the_source:
  "is_valid (obliging Linux False)
     \<lparr>m_size = 4096, m_offset = 0, m_fd = - 1, m_mapping_mode = write_private,
      m_handle = 0, m_addr = 0x7f0000000000\<rparr> \<and>
   (case move_assign (obliging Linux False) 0 0
      (one_object \<lparr>m_size = 4096, m_offset = 0, m_fd = - 1, m_mapping_mode = write_private,
         m_handle = 0, m_addr = 0x7f0000000000\<rparr>) [] of
      (r, st', w') \<Rightarrow>
        r = None \<and>
        st' 0 = \<lparr>m_size = 4096, m_offset = 0, m_fd = - 1, m_mapping_mode = write_private,
                 m_handle = 0, m_addr = - 1\<rparr> \<and>
        w' = [Munmap 0x7f0000000000 4096]) \<and>
   acts_on (Munmap 0x7f0000000000 4096)
     \<lparr>m_size = 4096, m_offset = 0, m_fd = - 1, m_mapping_mode = write_private,
      m_handle = 0, m_addr = 0x7f0000000000\<rparr>"
  by (simp add: move_assign_def unmap_def unix_unmap_def is_valid_def make_invalid_def
      obliging_def obliging_answer_def MAP_FAILED_def one_object_def acts_on_def Let_def)

text \<open>
  C5, amended. Let \<open>other\<close> be a valid region. After move construction from it, and after a
  move assignment from it that returns, \<open>other\<close> reports invalid. After move construction the
  new region, and after move assignment to a different region \<open>this\<close> that region, is valid
  and has the size, offset, descriptor, mode and address \<open>other\<close> had. Move construction
  makes no OS call. The OS calls of move assignment are those that release what \<open>this\<close> held
  before; when \<open>this\<close> held nothing there is none, and when \<open>this\<close> did not hold the
  source's mapping (as no different region does) none of them acts on the source's mapping.
  No third object changes. When \<open>this\<close> and \<open>other\<close> are the same object, move assignment
  unmaps it and leaves it invalid. The Unix move assignment always returns; the Windows one
  terminates the process when releasing the destination fails.
\<close>

theorem move_transfers_ownership:
  assumes "is_valid sys (st other)"
  shows "(case move_construct sys (st other) w of
            (new, other', w') \<Rightarrow>
              \<not> operator_bool sys other' \<and> operator_bool sys new \<and>
              mapping_size new = mapping_size (st other) \<and> m_offset new = m_offset (st other) \<and>
              mapping_fd new = mapping_fd (st other) \<and>
              m_mapping_mode new = m_mapping_mode (st other) \<and>
              get_addr new = get_addr (st other) \<and> w' = w) \<and>
         (case move_assign sys this other st w of
            (r, st', w') \<Rightarrow>
              (r = None \<or> r = Some terminate \<and> platform sys = Windows) \<and>
              (r = None \<longrightarrow> \<not> operator_bool sys (st' other)) \<and>
              (r = None \<and> this \<noteq> other \<longrightarrow>
                 operator_bool sys (st' this) \<and>
                 mapping_size (st' this) = mapping_size (st other) \<and>
                 m_offset (st' this) = m_offset (st other) \<and>
                 mapping_fd (st' this) = mapping_fd (st other) \<and>
                 m_mapping_mode (st' this) = m_mapping_mode (st other) \<and>
                 get_addr (st' this) = get_addr (st other)) \<and>
              (r = None \<longrightarrow> (\<forall>x. x \<noteq> this \<and> x \<noteq> other \<longrightarrow> st' x = st x)) \<and>
              set (new_calls w w') \<subseteq>
                {Munmap (m_addr (st this)) (m_size (st this)),
                 UnmapViewOfFile (m_addr (st this)), CloseHandle (m_handle (st this))} \<and>
              (\<not> is_valid sys (st this) \<and>
               (platform sys = Windows \<longrightarrow> m_handle (st this) = nullptr) \<longrightarrow> w' = w) \<and>
              (\<not> shares_mapping (st this) (st other) \<longrightarrow>
                 (\<forall>c \<in> set (new_calls w w'). \<not> acts_on c (st other))) \<and>
              (this = other \<longrightarrow>
                 new_calls w w' \<noteq> [] \<and> (\<forall>c \<in> set (new_calls w w'). acts_on c (st other))))"
proof -
  have 1: "case move_construct sys (st other) w of
            (new, other', w') \<Rightarrow>
              \<not> operator_bool sys other' \<and> operator_bool sys new \<and>
              mapping_size new = mapping_size (st other) \<and> m_offset new = m_offset (st other) \<and>
              mapping_fd new = mapping_fd (st other) \<and>
              m_mapping_mode new = m_mapping_mode (st other) \<and>
              get_addr new = get_addr (st other) \<and> w' = w"
    using assms
    by (simp add: move_construct_def operator_bool_def is_valid_def make_invalid_def
        mapping_size_def mapping_fd_def get_addr_def)
  obtain r1 m1 w1 where u: "unmap sys (st this) w = (r1, m1, w1)"
    by (cases "unmap sys (st this) w")
  note c = unmap_calls [OF u]
  from c(1) have sub: "set (new_calls w w1) \<subseteq>
                {Munmap (m_addr (st this)) (m_size (st this)),
                 UnmapViewOfFile (m_addr (st this)), CloseHandle (m_handle (st this))}"
    by (auto split: if_splits)
  from c(1) have apart: "\<not> shares_mapping (st this) (st other) \<longrightarrow>
      (\<forall>c \<in> set (new_calls w w1). \<not> acts_on c (st other))"
    by (auto simp: shares_mapping_def acts_on_def split: if_splits)
  from c(1) c(3) assms have same: "this = other \<longrightarrow>
      new_calls w w1 \<noteq> [] \<and> (\<forall>c \<in> set (new_calls w w1). acts_on c (st other))"
    by (auto simp: acts_on_def split: if_splits)
  from move_assign_cases [where st = st and this = this and other = other, OF u]
    assms sub apart same c(2)
  have 2: "case move_assign sys this other st w of
            (r, st', w') \<Rightarrow>
              (r = None \<or> r = Some terminate \<and> platform sys = Windows) \<and>
              (r = None \<longrightarrow> \<not> operator_bool sys (st' other)) \<and>
              (r = None \<and> this \<noteq> other \<longrightarrow>
                 operator_bool sys (st' this) \<and>
                 mapping_size (st' this) = mapping_size (st other) \<and>
                 m_offset (st' this) = m_offset (st other) \<and>
                 mapping_fd (st' this) = mapping_fd (st other) \<and>
                 m_mapping_mode (st' this) = m_mapping_mode (st other) \<and>
                 get_addr (st' this) = get_addr (st other)) \<and>
              (r = None \<longrightarrow> (\<forall>x. x \<noteq> this \<and> x \<noteq> other \<longrightarrow> st' x = st x)) \<and>
              set (new_calls w w') \<subseteq>
                {Munmap (m_addr (st this)) (m_size (st this)),
                 UnmapViewOfFile (m_addr (st this)), CloseHandle (m_handle (st this))} \<and>
              (\<not> is_valid sys (st this) \<and>
               (platform sys = Windows \<longrightarrow> m_handle (st this) = nullptr) \<longrightarrow> w' = w) \<and>
              (\<not> shares_mapping (st this) (st other) \<longrightarrow>
                 (\<forall>c \<in> set (new_calls w w'). \<not> acts_on c (st other))) \<and>
              (this = other \<longrightarrow>
                 new_calls w w' \<noteq> [] \<and> (\<forall>c \<in> set (new_calls w w'). acts_on c (st other)))"
    by (elim disjE conjE exE)
       (simp_all add: operator_bool_def is_valid_def mapping_size_def mapping_fd_def
          get_addr_def)
  from 1 2 show ?thesis by blast
qed

theorem move_transfers_ownership_witness:
  "is_valid (obliging Linux False)
     \<lparr>m_size = 8192, m_offset = 0, m_fd = - 1, m_mapping_mode = write_private,
      m_handle = 0, m_addr = 0x7f0000100000\<rparr> \<and>
   \<not> shares_mapping
     \<lparr>m_size = 4096, m_offset = 0, m_fd = - 1, m_mapping_mode = write_private,
      m_handle = 0, m_addr = 0x7f0000000000\<rparr>
     \<lparr>m_size = 8192, m_offset = 0, m_fd = - 1, m_mapping_mode = write_private,
      m_handle = 0, m_addr = 0x7f0000100000\<rparr> \<and>
   (case move_assign (obliging Linux False) 0 1
      (two_objects
         \<lparr>m_size = 4096, m_offset = 0, m_fd = - 1, m_mapping_mode = write_private,
          m_handle = 0, m_addr = 0x7f0000000000\<rparr>
         \<lparr>m_size = 8192, m_offset = 0, m_fd = - 1, m_mapping_mode = write_private,
          m_handle = 0, m_addr = 0x7f0000100000\<rparr>) [] of
      (r, st', w') \<Rightarrow>
        r = None \<and>
        st' 0 = \<lparr>m_size = 8192, m_offset = 0, m_fd = - 1, m_mapping_mode = write_private,
                 m_handle = 0, m_addr = 0x7f0000100000\<rparr> \<and>
        st' 1 = \<lparr>m_size = 8192, m_offset = 0, m_fd = - 1, m_mapping_mode = write_private,
                 m_handle = 0, m_addr = - 1\<rparr> \<and>
        \<not> operator_bool (obliging Linux False) (st' 1) \<and>
        w' = [Munmap 0x7f0000000000 4096]) \<and>
   \<not> acts_on (Munmap 0x7f0000000000 4096)
     \<lparr>m_size = 8192, m_offset = 0, m_fd = - 1, m_mapping_mode = write_private,
      m_handle = 0, m_addr = 0x7f0000100000\<rparr>"
proof -
  let ?sys = "obliging Linux False"
  let ?dst = "\<lparr>m_size = 4096, m_offset = 0, m_fd = - 1, m_mapping_mode = write_private,
      m_handle = 0, m_addr = 0x7f0000000000\<rparr>"
  let ?src = "\<lparr>m_size = 8192, m_offset = 0, m_fd = - 1, m_mapping_mode = write_private,
      m_handle = 0, m_addr = 0x7f0000100000\<rparr>"
  have v: "is_valid ?sys (two_objects ?dst ?src 1)"
    by (simp add: is_valid_def obliging_def MAP_FAILED_def two_objects_def)
  have s: "\<not> shares_mapping ?dst ?src" by (simp add: shares_mapping_def nullptr_def)
  have a: "case move_assign ?sys 0 1 (two_objects ?dst ?src) [] of
      (r, st', w') \<Rightarrow> r = None \<and> st' 0 = ?src \<and> st' 1 = ?src\<lparr>m_addr := - 1\<rparr> \<and>
        w' = [Munmap 0x7f0000000000 4096]"
    by (simp add: move_assign_def unmap_def unix_unmap_def is_valid_def make_invalid_def
        obliging_def obliging_answer_def MAP_FAILED_def two_objects_def Let_def)
  have v': "is_valid ?sys ?src" using v by (simp add: two_objects_def)
  have na: "\<not> acts_on (Munmap 0x7f0000000000 4096) ?src" by (simp add: acts_on_def)
  obtain r st' w' where e: "move_assign ?sys 0 1 (two_objects ?dst ?src) [] = (r, st', w')"
    by (cases "move_assign ?sys 0 1 (two_objects ?dst ?src) []")
  from a have a': "r = None" "st' 0 = ?src" "st' 1 = ?src\<lparr>m_addr := - 1\<rparr>"
    "w' = [Munmap 0x7f0000000000 4096]"
    unfolding e by simp_all
  from move_transfers_ownership [where st = "two_objects ?dst ?src" and other = 1
      and this = 0 and w = "[]" and sys = ?sys, OF v]
  have "r = None \<longrightarrow> \<not> operator_bool ?sys (st' 1)"
    unfolding e by (simp only: case_prod_conv) blast
  with a' have o: "\<not> operator_bool ?sys (st' 1)" by simp
  show ?thesis unfolding e using v' s a' o na by simp
qed

subsection \<open>Unmapping twice\<close>

lemma is_valid_handle_upd: "is_valid sys (m\<lparr>m_handle := h\<rparr>) = is_valid sys m"
  by (simp add: is_valid_def)

lemma m_handle_make_invalid: "m_handle (make_invalid sys m) = m_handle m"
  by (simp add: make_invalid_def)

lemma unmap_invalid:
  assumes "\<not> is_valid sys m" "platform sys = Windows \<longrightarrow> m_handle m = nullptr"
  shows "unmap sys m w = (None, m, w)"
  using assms by (simp add: unmap_def unix_unmap_def win_unmap_def win_close_handle_def)

lemma win_close_handle_returned:
  assumes "win_close_handle sys m w = (None, m', w')"
  shows "m_handle m' = nullptr \<and> is_valid sys m' = is_valid sys m"
  using assms by (cases "m_handle m = nullptr")
    (auto simp: win_close_handle_def Let_def is_valid_handle_upd split: if_splits)

lemma unmap_returned:
  assumes "is_valid sys m" "unmap sys m w = (None, m', w')"
  shows "\<not> is_valid sys m' \<and> (platform sys = Windows \<longrightarrow> m_handle m' = nullptr)"
proof (cases "platform sys = Windows")
  case True
  with assms have "win_close_handle sys (make_invalid sys m) (w @ [UnmapViewOfFile (m_addr m)])
      = (None, m', w')"
    by (simp add: unmap_def win_unmap_def Let_def split: if_splits)
  from win_close_handle_returned [OF this] show ?thesis
    by (simp add: is_valid_make_invalid)
next
  case False
  with assms show ?thesis
    by (auto simp: unmap_def unix_unmap_def Let_def is_valid_make_invalid split: if_splits)
qed

text \<open>
  C6: the Windows implementation breaks the doc comment of \<open>unmap()\<close>, "If the mapping is
  not valid, it will do nothing". There a region can be invalid and still hold a
  mapping-object handle. A file-backed region of 4096 bytes is created. Resizing it to 8192
  bytes releases the old view and handle and creates a new mapping object, but
  \<open>MapViewOfFile\<close> fails: \<open>resize\<close> throws and leaves the region invalid with the new
  handle. \<open>unmap()\<close> on this invalid region is not a no-op: it calls \<open>CloseHandle\<close> and
  clears \<open>m_handle\<close>.
\<close>

theorem windows_unmap_closes_leftover_handle:
  "construct short_of_views 4096 write_shared 3 0 [] =
     (Inr \<lparr>m_size = 4096, m_offset = 0, m_fd = 3, m_mapping_mode = write_shared,
           m_handle = 0x100, m_addr = 0x20000\<rparr>,
      [FileSize 3, ResizeFile 3 4096, SetModeBinary 3, GetOsfHandle 3,
       CreateFileMapping 0x44 PAGE_READWRITE 0 4096,
       MapViewOfFile 0x100 FILE_MAP_WRITE 0 0 4096]) \<and>
   resize short_of_views
     \<lparr>m_size = 4096, m_offset = 0, m_fd = 3, m_mapping_mode = write_shared,
      m_handle = 0x100, m_addr = 0x20000\<rparr> 8192 [] =
     (Some (system_error 8 ''MapViewOfFile failed''),
      \<lparr>m_size = 8192, m_offset = 0, m_fd = 3, m_mapping_mode = write_shared,
       m_handle = 0x100, m_addr = 0\<rparr>,
      [UnmapViewOfFile 0x20000, CloseHandle 0x100, FileSize 3, ResizeFile 3 8192,
       SetModeBinary 3, GetOsfHandle 3, CreateFileMapping 0x44 PAGE_READWRITE 0 8192,
       MapViewOfFile 0x100 FILE_MAP_WRITE 0 0 8192]) \<and>
   operator_bool short_of_views
     \<lparr>m_size = 8192, m_offset = 0, m_fd = 3, m_mapping_mode = write_shared,
      m_handle = 0x100, m_addr = 0\<rparr> = False \<and>
   unmap short_of_views
     \<lparr>m_size = 8192, m_offset = 0, m_fd = 3, m_mapping_mode = write_shared,
      m_handle = 0x100, m_addr = 0\<rparr> [] =
     (None,
      \<lparr>m_size = 8192, m_offset = 0, m_fd = 3, m_mapping_mode = write_shared,
       m_handle = 0, m_addr = 0\<rparr>,
      [CloseHandle 0x100])"
  by (simp add: construct_def win_construct_def resize_def win_resize_def unmap_def
      win_unmap_def win_close_handle_def resize_fd_def check_size_def create_file_mapping_def
      map_view_of_file_def get_handle_def win_get_protection_def win_get_flags_def
      dword_hi_def dword_lo_def is_valid_def make_invalid_def operator_bool_def
      short_of_views_def obliging_answer_def nullptr_def Let_def)

text \<open>
  Where the property does hold. When \<open>unmap()\<close> on a valid region returns, the region
  reports invalid and a second \<open>unmap()\<close> is a no-op: it makes no OS call, changes nothing
  and returns. In the Unix implementation \<open>unmap()\<close> on any invalid region is a no-op; in
  the Windows implementation it is one on an invalid region that holds no handle.
\<close>

lemma unmap_twice_is_noop:
  "(is_valid sys m \<and> unmap sys m w = (None, m', w') \<longrightarrow>
      \<not> operator_bool sys m' \<and> unmap sys m' w' = (None, m', w')) \<and>
   (\<not> is_valid sys m \<and> (platform sys = Windows \<longrightarrow> m_handle m = nullptr) \<longrightarrow>
      unmap sys m w = (None, m, w))"
proof (intro conjI impI)
  assume a: "is_valid sys m \<and> unmap sys m w = (None, m', w')"
  then have r: "\<not> is_valid sys m' \<and> (platform sys = Windows \<longrightarrow> m_handle m' = nullptr)"
    using unmap_returned by blast
  then show "\<not> operator_bool sys m'" by (simp add: operator_bool_def)
  from r show "unmap sys m' w' = (None, m', w')" using unmap_invalid by blast
next
  assume "\<not> is_valid sys m \<and> (platform sys = Windows \<longrightarrow> m_handle m = nullptr)"
  then show "unmap sys m w = (None, m, w)" using unmap_invalid by blast
qed

subsection \<open>Which failures reach the caller\<close>

lemma resize_fd_cases:
  assumes "resize_fd sys sz off d w = (r, w')"
  shows "\<exists>cs. w' = w @ cs \<and>
           (case r of Inl e \<Rightarrow> \<exists>code what. e = system_error code what
                    | Inr d' \<Rightarrow> \<not> any_failed sys w cs)"
  using assms
  by (auto simp: resize_fd_def call_failed_def split: if_splits)

lemma unmap_cases:
  assumes "unmap sys m w = (r, m', w')"
  shows "\<exists>cs. w' = w @ cs \<and>
           (case r of Some e \<Rightarrow> \<exists>code what. e = system_error code what
                    | None \<Rightarrow> \<not> any_failed sys w cs)"
  using assms
  by (auto simp: unmap_def unix_unmap_def win_unmap_def win_close_handle_def Let_def
      call_failed_def nullptr_def split: if_splits)

lemma create_file_mapping_cases:
  assumes "create_file_mapping sys m w = (h, e, w')"
  shows "\<exists>cs. w' = w @ cs \<and> (any_failed sys w cs \<longleftrightarrow> h = nullptr)"
  using assms
  by (auto simp: create_file_mapping_def get_handle_def Let_def call_failed_def
      split: if_splits)

lemma map_view_of_file_cases:
  assumes "map_view_of_file sys m w = (a, e, w')"
  shows "\<exists>cs. w' = w @ cs \<and> (any_failed sys w cs \<longleftrightarrow> a = nullptr)"
  using assms
  by (auto simp: map_view_of_file_def Let_def call_failed_def)

lemma unix_resize_propagates:
  assumes "unix_resize sys m n w = (r, m', w')" "platform sys \<noteq> Windows"
  shows "\<exists>cs. w' = w @ cs \<and>
           (any_failed sys w cs \<longrightarrow> (\<exists>code what. r = Some (system_error code what)))"
proof (cases "\<not> ndebug sys \<and> \<not> 0 < n")
  case True
  with assms show ?thesis by (auto simp: unix_resize_def)
next
  case a: False
  show ?thesis
  proof (cases "m_fd m = - 1")
    case True
    with a assms show ?thesis
      by (auto simp: unix_resize_def Let_def call_failed_def is_valid_def split: if_splits)
  next
    case False
    obtain r1 m1 w1 where u: "unmap sys m w = (r1, m1, w1)" by (cases "unmap sys m w")
    from unmap_cases [OF u] obtain cs1 where w1: "w1 = w @ cs1"
      and c1: "case r1 of Some e \<Rightarrow> \<exists>code what. e = system_error code what
                    | None \<Rightarrow> \<not> any_failed sys w cs1" by blast
    show ?thesis
    proof (cases r1)
      case (Some e)
      with a False u assms w1 c1 show ?thesis by (auto simp: unix_resize_def)
    next
      case None
      obtain r2 w2 where f: "resize_fd sys n (m_offset m1) (m_fd m1) w1 = (r2, w2)"
        by (cases "resize_fd sys n (m_offset m1) (m_fd m1) w1")
      from resize_fd_cases [OF f] obtain cs2 where w2: "w2 = w1 @ cs2"
        and c2: "case r2 of Inl e \<Rightarrow> \<exists>code what. e = system_error code what
                    | Inr d' \<Rightarrow> \<not> any_failed sys w1 cs2" by blast
      show ?thesis
      proof (cases r2)
        case (Inl e)
        with a False u assms None f w1 w2 c2 show ?thesis
          by (auto simp: unix_resize_def Let_def)
      next
        case (Inr d')
        with a False u assms None f w1 w2 c1 c2 show ?thesis
          by (auto simp: unix_resize_def Let_def any_failed_append call_failed_def is_valid_def
              split: if_splits)
      qed
    qed
  qed
qed

lemma win_resize_propagates:
  assumes "win_resize sys m n w = (r, m', w')" "platform sys = Windows"
  shows "\<exists>cs. w' = w @ cs \<and>
           (any_failed sys w cs \<longrightarrow> (\<exists>code what. r = Some (system_error code what)))"
proof -
  obtain r1 m1 w1 where u: "unmap sys m w = (r1, m1, w1)" by (cases "unmap sys m w")
  from unmap_cases [OF u] obtain cs1 where w1: "w1 = w @ cs1"
    and c1: "case r1 of Some e \<Rightarrow> \<exists>code what. e = system_error code what
                  | None \<Rightarrow> \<not> any_failed sys w cs1" by blast
  show ?thesis
  proof (cases r1)
    case (Some e)
    with u assms w1 c1 show ?thesis by (auto simp: win_resize_def)
  next
    case None
    obtain r2 w2 where f: "resize_fd sys n (m_offset m1) (m_fd m1) w1 = (r2, w2)"
      by (cases "resize_fd sys n (m_offset m1) (m_fd m1) w1")
    from resize_fd_cases [OF f] obtain cs2 where w2: "w2 = w1 @ cs2"
      and c2: "case r2 of Inl e \<Rightarrow> \<exists>code what. e = system_error code what
                  | Inr d' \<Rightarrow> \<not> any_failed sys w1 cs2" by blast
    show ?thesis
    proof (cases r2)
      case (Inl e)
      with u assms None f w1 w2 c2 show ?thesis
        by (auto simp: win_resize_def Let_def)
    next
      case (Inr d')
      let ?m2 = "m1\<lparr>m_size := n\<rparr>"
      obtain h e3 w3 where g: "create_file_mapping sys ?m2 w2 = (h, e3, w3)"
        by (cases "create_file_mapping sys ?m2 w2")
      from create_file_mapping_cases [OF g] obtain cs3 where w3: "w3 = w2 @ cs3"
        and c3: "any_failed sys w2 cs3 \<longleftrightarrow> h = nullptr" by blast
      show ?thesis
      proof (cases "h = nullptr")
        case True
        with u assms None f Inr g w1 w2 w3 show ?thesis
          by (auto simp: win_resize_def Let_def)
      next
        case False
        let ?m3 = "?m2\<lparr>m_handle := h\<rparr>"
        obtain a e4 w4 where v: "map_view_of_file sys ?m3 w3 = (a, e4, w4)"
          by (cases "map_view_of_file sys ?m3 w3")
        from map_view_of_file_cases [OF v] obtain cs4 where w4: "w4 = w3 @ cs4"
          and c4: "any_failed sys w3 cs4 \<longleftrightarrow> a = nullptr" by blast
        have "w' = w @ (cs1 @ cs2 @ cs3 @ cs4)"
          using u assms None f Inr g False v w1 w2 w3 w4
          by (auto simp: win_resize_def Let_def split: if_splits)
        moreover have "any_failed sys w (cs1 @ cs2 @ cs3 @ cs4) \<longrightarrow>
            (\<exists>code what. r = Some (system_error code what))"
          using u assms None f Inr g False v w1 w2 w3 w4 c1 c2 c3 c4
          by (auto simp: win_resize_def Let_def any_failed_append is_valid_def split: if_splits)
        ultimately show ?thesis by blast
      qed
    qed
  qed
qed

lemma unix_construct_propagates:
  assumes "unix_construct sys sz mode d off w = (r, w')" "platform sys \<noteq> Windows"
  shows "\<exists>cs. w' = w @ cs \<and> (any_failed sys w cs \<longrightarrow> isl r)"
proof -
  obtain r2 w2 where f: "resize_fd sys (check_size sys sz) off d w = (r2, w2)"
    by (cases "resize_fd sys (check_size sys sz) off d w")
  from resize_fd_cases [OF f] obtain cs2 where w2: "w2 = w @ cs2"
    and c2: "case r2 of Inl e \<Rightarrow> \<exists>code what. e = system_error code what
                | Inr d' \<Rightarrow> \<not> any_failed sys w cs2" by blast
  show ?thesis
  proof (cases r2)
    case (Inl e)
    with assms f w2 show ?thesis by (auto simp: unix_construct_def)
  next
    case (Inr d')
    with assms f w2 c2 show ?thesis
      by (auto simp: unix_construct_def Let_def any_failed_append call_failed_def is_valid_def
          split: if_splits)
  qed
qed

lemma win_construct_propagates:
  assumes "win_construct sys sz mode d off w = (r, w')" "platform sys = Windows"
  shows "\<exists>cs. w' = w @ cs \<and> (any_failed sys w cs \<longrightarrow> isl r)"
proof -
  obtain r2 w2 where f: "resize_fd sys (check_size sys sz) off d w = (r2, w2)"
    by (cases "resize_fd sys (check_size sys sz) off d w")
  from resize_fd_cases [OF f] obtain cs2 where w2: "w2 = w @ cs2"
    and c2: "case r2 of Inl e \<Rightarrow> \<exists>code what. e = system_error code what
                | Inr d' \<Rightarrow> \<not> any_failed sys w cs2" by blast
  show ?thesis
  proof (cases r2)
    case (Inl e)
    with assms f w2 show ?thesis by (auto simp: win_construct_def)
  next
    case (Inr d')
    let ?m0 = "\<lparr>m_size = check_size sys sz, m_offset = off, m_fd = d',
                    m_mapping_mode = mode, m_handle = nullptr, m_addr = nullptr\<rparr>"
    obtain h e3 w3 where g: "create_file_mapping sys ?m0 w2 = (h, e3, w3)"
      by (cases "create_file_mapping sys ?m0 w2")
    from create_file_mapping_cases [OF g] obtain cs3 where w3: "w3 = w2 @ cs3"
      and c3: "any_failed sys w2 cs3 \<longleftrightarrow> h = nullptr" by blast
    show ?thesis
    proof (cases "h = nullptr")
      case True
      with assms f Inr g w2 w3 show ?thesis
        by (auto simp: win_construct_def Let_def)
    next
      case False
      let ?m1 = "?m0\<lparr>m_handle := h\<rparr>"
      obtain a e4 w4 where v: "map_view_of_file sys ?m1 w3 = (a, e4, w4)"
        by (cases "map_view_of_file sys ?m1 w3")
      from map_view_of_file_cases [OF v] obtain cs4 where w4: "w4 = w3 @ cs4"
        and c4: "any_failed sys w3 cs4 \<longleftrightarrow> a = nullptr" by blast
      have "w' = w @ (cs2 @ cs3 @ cs4)"
        using assms f Inr g False v w2 w3 w4
        by (auto simp: win_construct_def Let_def split: if_splits)
      moreover have "any_failed sys w (cs2 @ cs3 @ cs4) \<longrightarrow> isl r"
        using assms f Inr g False v w2 w3 w4 c2 c3 c4
        by (auto simp: win_construct_def Let_def any_failed_append is_valid_def split: if_splits)
      ultimately show ?thesis by blast
    qed
  qed
qed

lemma unmap_propagates:
  "any_failed sys w (new_calls w (snd (snd (unmap sys m w)))) \<Longrightarrow>
   \<exists>code what. fst (unmap sys m w) = Some (system_error code what)"
proof -
  assume a: "any_failed sys w (new_calls w (snd (snd (unmap sys m w))))"
  obtain r m' w' where u: "unmap sys m w = (r, m', w')" by (cases "unmap sys m w")
  from unmap_cases [OF u] a u show ?thesis by (cases r) (auto simp: new_calls_simps)
qed

lemma resize_propagates:
  "any_failed sys w (new_calls w (snd (snd (resize sys m n w)))) \<Longrightarrow>
   \<exists>code what. fst (resize sys m n w) = Some (system_error code what)"
proof -
  assume a: "any_failed sys w (new_calls w (snd (snd (resize sys m n w))))"
  obtain r m' w' where u: "resize sys m n w = (r, m', w')" by (cases "resize sys m n w")
  show ?thesis
  proof (cases "platform sys = Windows")
    case True
    with u have "win_resize sys m n w = (r, m', w')" by (simp add: resize_def)
    from win_resize_propagates [OF this True] a u show ?thesis
      by (auto simp: new_calls_simps)
  next
    case False
    with u have "unix_resize sys m n w = (r, m', w')" by (simp add: resize_def)
    from unix_resize_propagates [OF this False] a u show ?thesis
      by (auto simp: new_calls_simps)
  qed
qed

lemma construct_propagates:
  "any_failed sys w (new_calls w (snd (construct sys sz mode d off w))) \<Longrightarrow>
   isl (fst (construct sys sz mode d off w))"
proof -
  assume a: "any_failed sys w (new_calls w (snd (construct sys sz mode d off w)))"
  obtain r w' where u: "construct sys sz mode d off w = (r, w')"
    by (cases "construct sys sz mode d off w")
  show ?thesis
  proof (cases "platform sys = Windows")
    case True
    with u have "win_construct sys sz mode d off w = (r, w')" by (simp add: construct_def)
    from win_construct_propagates [OF this True] a u show ?thesis
      by (auto simp: new_calls_simps)
  next
    case False
    with u have "unix_construct sys sz mode d off w = (r, w')" by (simp add: construct_def)
    from unix_construct_propagates [OF this False] a u show ?thesis
      by (auto simp: new_calls_simps)
  qed
qed

lemma destructor_discards: "fst (destructor sys m w) = None"
proof -
  obtain r m' w' where u: "unmap sys m w = (r, m', w')" by (cases "unmap sys m w")
  from unmap_cases [OF u] u show ?thesis by (cases r) (auto simp: destructor_def)
qed

lemma unix_move_assign_discards:
  "platform sys \<noteq> Windows \<Longrightarrow> fst (move_assign sys this other st w) = None"
  by (simp add: move_assign_def Let_def split: prod.splits)

text \<open>
  C7, as the claim states it, fails. In the Unix implementation a region that owns a
  mapping is the destination of a move assignment, and \<open>munmap\<close> fails. The move assignment
  catches the \<open>std::system_error\<close> and goes on: it returns normally, the destination holds
  the source's fields, and the failure has reached no caller.
\<close>

theorem unix_move_assign_swallows_unmap_failure:
  "(case move_assign munmap_fails 0 1
      (two_objects
         \<lparr>m_size = 4096, m_offset = 0, m_fd = - 1, m_mapping_mode = write_private,
          m_handle = 0, m_addr = 0x7f0000000000\<rparr>
         \<lparr>m_size = 8192, m_offset = 0, m_fd = - 1, m_mapping_mode = write_private,
          m_handle = 0, m_addr = 0x7f0000100000\<rparr>) [] of
      (r, st', w') \<Rightarrow>
        r = None \<and>
        st' 0 = \<lparr>m_size = 8192, m_offset = 0, m_fd = - 1, m_mapping_mode = write_private,
                 m_handle = 0, m_addr = 0x7f0000100000\<rparr> \<and>
        st' 1 = \<lparr>m_size = 8192, m_offset = 0, m_fd = - 1, m_mapping_mode = write_private,
                 m_handle = 0, m_addr = - 1\<rparr> \<and>
        w' = [Munmap 0x7f0000000000 4096]) \<and>
   call_failed munmap_fails [] (Munmap 0x7f0000000000 4096) \<and>
   unmap munmap_fails
     \<lparr>m_size = 4096, m_offset = 0, m_fd = - 1, m_mapping_mode = write_private,
      m_handle = 0, m_addr = 0x7f0000000000\<rparr> [] =
     (Some (system_error 22 ''munmap failed''),
      \<lparr>m_size = 4096, m_offset = 0, m_fd = - 1, m_mapping_mode = write_private,
       m_handle = 0, m_addr = 0x7f0000000000\<rparr>,
      [Munmap 0x7f0000000000 4096])"
  by (simp add: move_assign_def unmap_def unix_unmap_def is_valid_def make_invalid_def
      munmap_fails_def call_failed_def MAP_FAILED_def two_objects_def Let_def)

text \<open>
  C7, amended. When a call that maps, unmaps, remaps, closes the mapping object or grows the
  file (\<open>call_failed\<close> lists them) fails inside the constructor, \<open>unmap()\<close> or \<open>resize()\<close>,
  the operation fails: \<open>unmap()\<close> and \<open>resize()\<close> throw \<open>std::system_error\<close>, the
  constructor does not return an object. Two operations discard a failure of the \<open>unmap()\<close>
  they call: the destructor and, in the Unix implementation, move assignment; both always
  return normally.
\<close>

theorem failures_reach_caller_except_destructor_and_unix_move_assign:
  "(any_failed sys w (new_calls w (snd (snd (unmap sys m w)))) \<longrightarrow>
      (\<exists>code what. fst (unmap sys m w) = Some (system_error code what))) \<and>
   (any_failed sys w (new_calls w (snd (snd (resize sys m n w)))) \<longrightarrow>
      (\<exists>code what. fst (resize sys m n w) = Some (system_error code what))) \<and>
   (any_failed sys w (new_calls w (snd (construct sys sz mode d off w))) \<longrightarrow>
      isl (fst (construct sys sz mode d off w))) \<and>
   fst (destructor sys m w) = None \<and>
   (platform sys \<noteq> Windows \<longrightarrow> fst (move_assign sys this other st w) = None)"
  using unmap_propagates [of sys w m] resize_propagates [of sys w m n]
    construct_propagates [of sys w sz mode d off] destructor_discards [of sys m w]
    unix_move_assign_discards [of sys this other st w]
  by blast

theorem failures_reach_caller_witness:
  "any_failed munmap_fails []
     (new_calls [] (snd (snd (unmap munmap_fails
        \<lparr>m_size = 4096, m_offset = 0, m_fd = - 1, m_mapping_mode = write_private,
         m_handle = 0, m_addr = 0x7f0000000000\<rparr> [])))) \<and>
   platform munmap_fails \<noteq> Windows \<and>
   (\<exists>code what. fst (unmap munmap_fails
        \<lparr>m_size = 4096, m_offset = 0, m_fd = - 1, m_mapping_mode = write_private,
         m_handle = 0, m_addr = 0x7f0000000000\<rparr> []) = Some (system_error code what)) \<and>
   fst (destructor munmap_fails
        \<lparr>m_size = 4096, m_offset = 0, m_fd = - 1, m_mapping_mode = write_private,
         m_handle = 0, m_addr = 0x7f0000000000\<rparr> []) = None"
proof -
  let ?m = "\<lparr>m_size = 4096, m_offset = 0, m_fd = - 1, m_mapping_mode = write_private,
         m_handle = 0, m_addr = 0x7f0000000000\<rparr>"
  have u: "unmap munmap_fails ?m [] =
      (Some (system_error 22 ''munmap failed''), ?m, [Munmap 0x7f0000000000 4096])"
    by (simp add: unmap_def unix_unmap_def is_valid_def munmap_fails_def MAP_FAILED_def)
  have f: "any_failed munmap_fails [] (new_calls [] (snd (snd (unmap munmap_fails ?m []))))"
    unfolding u by (simp add: call_failed_def munmap_fails_def new_calls_def)
  have p: "platform munmap_fails \<noteq> Windows" by (simp add: munmap_fails_def)
  from failures_reach_caller_except_destructor_and_unix_move_assign
    [where sys = munmap_fails and w = "[]" and m = ?m and n = 1 and sz = 0
      and mode = readonly and d = 0 and off = 0 and this = 0 and other = 0
      and st = "one_object ?m"] f p
  show ?thesis by blast
qed

subsection \<open>Typed mappings\<close>

lemma typed_construct_size:
  assumes "typed_construct sys sizeof_T n w = (Inr t, w')"
  shows "mapping_size (m_mapping t) = check_size sys (sizeof_T * n)"
proof -
  from assms obtain m where c: "construct sys (sizeof_T * n) write_private (- 1) 0 w = (Inr m, w')"
    and t: "t = \<lparr>m_mapping = m\<rparr>"
    by (auto simp: typed_construct_def split: prod.splits sum.splits)
  from c have "m_size m = check_size sys (sizeof_T * n)"
    by (cases "platform sys = Windows")
       (auto simp: construct_def win_construct_def unix_construct_def resize_fd_def
          create_file_mapping_def map_view_of_file_def get_handle_def Let_def
          split: if_splits prod.splits)
  with t show ?thesis by (simp add: mapping_size_def)
qed

text \<open>
  Where the invariant of C8 does hold after construction: the element count is not 0 and
  the byte size \<open>sizeof(T) * n\<close> does not wrap around.
\<close>

lemma typed_construct_invariant:
  assumes "typed_construct sys sizeof_T n w = (Inr t, w')"
    and "n \<noteq> 0" "sizeof_T \<noteq> 0" "unat sizeof_T * unat n < 2 ^ 64"
  shows "mapping_size (m_mapping t) mod sizeof_T = 0 \<and> typed_size sys sizeof_T t = Inr n"
proof -
  have u: "unat (sizeof_T * n) = unat sizeof_T * unat n"
    using assms(4) by (simp add: unat_mult_lem [THEN iffD1])
  from assms(2,3) have "unat sizeof_T * unat n \<noteq> 0" by (simp add: unat_eq_zero)
  with u have nz: "sizeof_T * n \<noteq> 0" by (metis unat_0)
  with typed_construct_size [OF assms(1)] have s: "mapping_size (m_mapping t) = sizeof_T * n"
    by (simp add: check_size_def)
  have "unat ((sizeof_T * n) mod sizeof_T) = 0" by (simp add: unat_mod u)
  then have m: "(sizeof_T * n) mod sizeof_T = 0" by (simp add: unat_eq_zero)
  from assms(3) have "0 < unat sizeof_T" by (simp add: unat_gt_0)
  then have "unat ((sizeof_T * n) div sizeof_T) = unat n" by (simp add: unat_div u)
  then have d: "(sizeof_T * n) div sizeof_T = n" by (simp add: word_unat_eq_iff)
  from s m d show ?thesis by (simp add: typed_size_def)
qed

text \<open>
  C8: the code breaks the invariant that its own \<open>assert\<close> in \<open>size()\<close> states. A typed
  mapping of 0 elements of 12 bytes each is created on a system with pages of 4096 bytes.
  The byte size requested is 0, which \<open>check_size\<close> replaces by 4096, and 4096 is not a
  multiple of 12: \<open>size()\<close> fails its assertion, and with \<open>NDEBUG\<close> it returns 341, while
  341 elements are 4092 bytes.
\<close>

theorem typed_mapping_of_no_elements_breaks_invariant:
  "typed_construct (obliging Linux False) 12 0 [] =
     (Inr \<lparr>m_mapping = \<lparr>m_size = 4096, m_offset = 0, m_fd = - 1,
             m_mapping_mode = write_private, m_handle = 0, m_addr = 0x7f0000000000\<rparr>\<rparr>,
      [Mmap 4096 PROT_READ_WRITE MAP_PRIVATE_ANONYMOUS (- 1) 0]) \<and>
   mapping_size \<lparr>m_size = 4096, m_offset = 0, m_fd = - 1,
             m_mapping_mode = write_private, m_handle = 0, m_addr = 0x7f0000000000\<rparr> mod 12
     = 4 \<and>
   typed_size (obliging Linux False) 12
     \<lparr>m_mapping = \<lparr>m_size = 4096, m_offset = 0, m_fd = - 1,
             m_mapping_mode = write_private, m_handle = 0, m_addr = 0x7f0000000000\<rparr>\<rparr>
     = Inl (assertion_failed ''m_mapping.size() % sizeof(T) == 0'') \<and>
   typed_size (obliging Linux True) 12
     \<lparr>m_mapping = \<lparr>m_size = 4096, m_offset = 0, m_fd = - 1,
             m_mapping_mode = write_private, m_handle = 0, m_addr = 0x7f0000000000\<rparr>\<rparr>
     = Inr 341 \<and>
   (341 :: size_t) * 12 = 4092"
  by (simp add: typed_construct_def construct_def unix_construct_def obliging_def
      obliging_answer_def resize_fd_def check_size_def get_protection_def get_flags_def
      is_valid_def MAP_FAILED_def nullptr_def typed_size_def mapping_size_def)

subsection \<open>Resizing an anonymous mapping\<close>

text \<open>
  In the Unix implementation built without \<open>__linux__\<close>, \<open>resize\<close> on an anonymous region makes
  no OS call and leaves the region as it is. What it returns is decided at run time by the
  two \<open>assert\<close>s: with \<open>NDEBUG\<close> it returns normally, having resized nothing.
\<close>

lemma other_unix_anonymous_resize:
  assumes "platform sys = OtherUnix" "m_fd m = - 1"
  shows "resize sys m n w =
    ((if ndebug sys then None
      else if n = 0 then Some (assertion_failed ''can not resize to zero size'')
      else Some (assertion_failed ''can't resize anonymous mappings on non-linux systems'')),
     m, w)"
  using assms by (simp add: resize_def unix_resize_def word_neq_0_conv)

text \<open>
  C9: the Windows implementation has no platform support for growing an anonymous mapping,
  and its \<open>resize\<close> does not test for one. An anonymous region of 4096 bytes is created and
  resized to 8192 bytes: \<open>resize\<close> releases the view and the mapping object, creates a new
  mapping object backed by the paging file and maps it, four OS calls, and returns normally.
\<close>

theorem windows_resize_remaps_anonymous_mapping:
  "anonymous_construct (obliging Windows False) 4096 [] =
     (Inr \<lparr>m_size = 4096, m_offset = 0, m_fd = - 1, m_mapping_mode = write_private,
           m_handle = 0x100, m_addr = 0x20000\<rparr>,
      [CreateFileMapping INVALID_HANDLE_VALUE PAGE_WRITECOPY 0 4096,
       MapViewOfFile 0x100 FILE_MAP_COPY 0 0 4096]) \<and>
   mapping_fd \<lparr>m_size = 4096, m_offset = 0, m_fd = - 1, m_mapping_mode = write_private,
           m_handle = 0x100, m_addr = 0x20000\<rparr> = - 1 \<and>
   resize (obliging Windows False)
     \<lparr>m_size = 4096, m_offset = 0, m_fd = - 1, m_mapping_mode = write_private,
      m_handle = 0x100, m_addr = 0x20000\<rparr> 8192 [] =
     (None,
      \<lparr>m_size = 8192, m_offset = 0, m_fd = - 1, m_mapping_mode = write_private,
       m_handle = 0x100, m_addr = 0x20000\<rparr>,
      [UnmapViewOfFile 0x20000, CloseHandle 0x100,
       CreateFileMapping INVALID_HANDLE_VALUE PAGE_WRITECOPY 0 8192,
       MapViewOfFile 0x100 FILE_MAP_COPY 0 0 8192])"
  by (simp add: anonymous_construct_def construct_def win_construct_def resize_def
      win_resize_def unmap_def win_unmap_def win_close_handle_def resize_fd_def check_size_def
      create_file_mapping_def map_view_of_file_def get_handle_def win_get_protection_def
      win_get_flags_def dword_hi_def dword_lo_def is_valid_def make_invalid_def mapping_fd_def
      obliging_def obliging_answer_def nullptr_def Let_def)

subsection \<open>The address of an invalid mapping\<close>





end
